theory Spec2Isabelle
  imports Complex_Main "HOL-Library.Multiset"
begin

section \<open>Numbers\<close>

text \<open>
  A TypeScript \<open>number\<close> is an IEEE double. The model keeps the three special values
  apart from the finite ones, so that a division by zero yields \<open>Infinity\<close> or
  \<open>NaN\<close> as it does in the program instead of HOL's \<open>x / 0 = 0\<close>. A finite number is
  the real that it denotes; the two zeros are one number \<open>Fin 0\<close>, so a speed of \<open>-0\<close> is
  outside the model.
\<close>

datatype jsnum = Fin real | PosInf | NegInf | NaN

text \<open>
  What the arithmetic rounds to and what the \<open>Math\<close> functions return is the business of
  the engine that runs the program, and the program's results depend on it: with doubles
  the haversine term \<open>a\<close> can exceed 1 for nearly antipodal points, and the distance is
  then \<open>NaN\<close>. So the engine is an argument of the model. \<open>nearest\<close> gives the number that
  an exact result is rounded to (an infinity when it overflows); \<open>+\<close>, \<open>-\<close>, \<open>*\<close>, \<open>/\<close> and the
  reading of a decimal numeral are the exact operation followed by \<open>nearest\<close>. The results
  of \<open>Math.sin\<close>, \<open>Math.cos\<close>, \<open>Math.sqrt\<close> and \<open>Math.atan2\<close> on finite arguments are
  implementation-approximated, and are fields of their own.
\<close>

record engine =
  nearest :: "real \<Rightarrow> jsnum"
  sin_of :: "real \<Rightarrow> jsnum"
  cos_of :: "real \<Rightarrow> jsnum"
  sqrt_of :: "real \<Rightarrow> jsnum"
  atan2_of :: "real \<Rightarrow> real \<Rightarrow> jsnum"

fun jadd :: "engine \<Rightarrow> jsnum \<Rightarrow> jsnum \<Rightarrow> jsnum" where
  "jadd fp (Fin a) (Fin b) = nearest fp (a + b)"
| "jadd fp NaN _ = NaN"
| "jadd fp _ NaN = NaN"
| "jadd fp PosInf NegInf = NaN"
| "jadd fp NegInf PosInf = NaN"
| "jadd fp PosInf _ = PosInf"
| "jadd fp _ PosInf = PosInf"
| "jadd fp NegInf _ = NegInf"
| "jadd fp _ NegInf = NegInf"

fun jsub :: "engine \<Rightarrow> jsnum \<Rightarrow> jsnum \<Rightarrow> jsnum" where
  "jsub fp (Fin a) (Fin b) = nearest fp (a - b)"
| "jsub fp NaN _ = NaN"
| "jsub fp _ NaN = NaN"
| "jsub fp PosInf PosInf = NaN"
| "jsub fp NegInf NegInf = NaN"
| "jsub fp PosInf _ = PosInf"
| "jsub fp _ PosInf = NegInf"
| "jsub fp NegInf _ = NegInf"
| "jsub fp _ NegInf = PosInf"

fun jmul :: "engine \<Rightarrow> jsnum \<Rightarrow> jsnum \<Rightarrow> jsnum" where
  "jmul fp (Fin a) (Fin b) = nearest fp (a * b)"
| "jmul fp NaN _ = NaN"
| "jmul fp _ NaN = NaN"
| "jmul fp PosInf (Fin b) = (if b = 0 then NaN else if 0 < b then PosInf else NegInf)"
| "jmul fp NegInf (Fin b) = (if b = 0 then NaN else if 0 < b then NegInf else PosInf)"
| "jmul fp (Fin a) PosInf = (if a = 0 then NaN else if 0 < a then PosInf else NegInf)"
| "jmul fp (Fin a) NegInf = (if a = 0 then NaN else if 0 < a then NegInf else PosInf)"
| "jmul fp PosInf PosInf = PosInf"
| "jmul fp PosInf NegInf = NegInf"
| "jmul fp NegInf PosInf = NegInf"
| "jmul fp NegInf NegInf = PosInf"

text \<open>The operator \<open>/\<close> never throws: a zero divisor gives an infinity, or \<open>NaN\<close> for \<open>0 / 0\<close>.\<close>

fun jdiv :: "engine \<Rightarrow> jsnum \<Rightarrow> jsnum \<Rightarrow> jsnum" where
  "jdiv fp (Fin a) (Fin b) =
     (if b \<noteq> 0 then nearest fp (a / b)
      else if 0 < a then PosInf else if a < 0 then NegInf else NaN)"
| "jdiv fp NaN _ = NaN"
| "jdiv fp _ NaN = NaN"
| "jdiv fp (Fin a) PosInf = Fin 0"
| "jdiv fp (Fin a) NegInf = Fin 0"
| "jdiv fp PosInf (Fin b) = (if 0 \<le> b then PosInf else NegInf)"
| "jdiv fp NegInf (Fin b) = (if 0 \<le> b then NegInf else PosInf)"
| "jdiv fp PosInf PosInf = NaN"
| "jdiv fp PosInf NegInf = NaN"
| "jdiv fp NegInf PosInf = NaN"
| "jdiv fp NegInf NegInf = NaN"

definition Math_PI :: "engine \<Rightarrow> jsnum" where
  "Math_PI fp = nearest fp pi"

fun Math_sin :: "engine \<Rightarrow> jsnum \<Rightarrow> jsnum" where
  "Math_sin fp (Fin a) = sin_of fp a"
| "Math_sin fp _ = NaN"

fun Math_cos :: "engine \<Rightarrow> jsnum \<Rightarrow> jsnum" where
  "Math_cos fp (Fin a) = cos_of fp a"
| "Math_cos fp _ = NaN"

fun Math_sqrt :: "engine \<Rightarrow> jsnum \<Rightarrow> jsnum" where
  "Math_sqrt fp (Fin a) = (if a < 0 then NaN else sqrt_of fp a)"
| "Math_sqrt fp PosInf = PosInf"
| "Math_sqrt fp NegInf = NaN"
| "Math_sqrt fp NaN = NaN"

fun Math_atan2 :: "engine \<Rightarrow> jsnum \<Rightarrow> jsnum \<Rightarrow> jsnum" where
  "Math_atan2 fp (Fin y) (Fin x) = atan2_of fp y x"
| "Math_atan2 fp NaN _ = NaN"
| "Math_atan2 fp _ NaN = NaN"
| "Math_atan2 fp (Fin y) PosInf = Fin 0"
| "Math_atan2 fp (Fin y) NegInf = (if 0 \<le> y then nearest fp pi else nearest fp (- pi))"
| "Math_atan2 fp PosInf (Fin x) = nearest fp (pi / 2)"
| "Math_atan2 fp NegInf (Fin x) = nearest fp (- (pi / 2))"
| "Math_atan2 fp PosInf PosInf = nearest fp (pi / 4)"
| "Math_atan2 fp PosInf NegInf = nearest fp (3 * pi / 4)"
| "Math_atan2 fp NegInf PosInf = nearest fp (- (pi / 4))"
| "Math_atan2 fp NegInf NegInf = nearest fp (- (3 * pi / 4))"

text \<open>
  \<open>parseFloat(x.toFixed(2))\<close>: \<open>toFixed\<close> takes the sign off, picks the integer \<open>n\<close> with
  \<open>n / 100\<close> nearest to the magnitude (the larger one on a tie) and prints it with two
  decimals, which \<open>parseFloat\<close> reads back as the nearest number; from \<open>10^21\<close> on it
  prints the number itself, and so it does for the three special values.
\<close>

fun toFixed2 :: "engine \<Rightarrow> jsnum \<Rightarrow> jsnum" where
  "toFixed2 fp (Fin x) =
     (if 10 ^ 21 \<le> \<bar>x\<bar> then Fin x
      else if x < 0 then nearest fp (- (of_int \<lfloor>\<bar>x\<bar> * 100 + 1 / 2\<rfloor> / 100))
      else nearest fp (of_int \<lfloor>\<bar>x\<bar> * 100 + 1 / 2\<rfloor> / 100))"
| "toFixed2 fp PosInf = PosInf"
| "toFixed2 fp NegInf = NegInf"
| "toFixed2 fp NaN = NaN"

text \<open>
  The engine without rounding: every result is the exact real. The examples below are
  run on it.
\<close>

definition ideal :: engine where
  "ideal =
     \<lparr>nearest = Fin,
      sin_of = (\<lambda>x. Fin (sin x)),
      cos_of = (\<lambda>x. Fin (cos x)),
      sqrt_of = (\<lambda>x. Fin (sqrt x)),
      atan2_of = (\<lambda>y x. Fin (if 0 < x then arctan (y / x)
          else if x < 0 then (if 0 \<le> y then arctan (y / x) + pi else arctan (y / x) - pi)
          else if 0 < y then pi / 2 else if y < 0 then - (pi / 2) else 0))\<rparr>"

section \<open>Data model (\<open>types/index.ts\<close>)\<close>

record location =
  lat :: jsnum
  lng :: jsnum

record timeWindow =
  tw_start :: string
  tw_end :: string

record warehouse =
  w_id :: string
  w_name :: string
  w_location :: location
  w_capacity :: jsnum
  w_address :: string

record store =
  s_id :: string
  s_name :: string
  s_location :: location
  demand :: jsnum
  s_address :: string
  s_timeWindow :: "timeWindow option"

record truck =
  t_id :: string
  t_name :: string
  t_capacity :: jsnum
  speed :: jsnum
  warehouseId :: string

record route =
  r_id :: string
  r_warehouseId :: string
  truckId :: string
  r_stores :: "string list"
  distance :: jsnum
  estimatedTime :: jsnum
  created :: string

text \<open>\<open>Partial<Route>\<close>: every field may be absent; \<open>id\<close> is one of the fields.\<close>

record partial_route =
  p_id :: "string option"
  p_warehouseId :: "string option"
  p_truckId :: "string option"
  p_stores :: "string list option"
  p_distance :: "jsnum option"
  p_estimatedTime :: "jsnum option"
  p_created :: "string option"

record state =
  warehouses :: "warehouse list"
  stores :: "store list"
  trucks :: "truck list"
  routes :: "route list"

datatype error = TypeError

section \<open>The store's actions on warehouses and routes (\<open>store/dataStore.ts\<close>)\<close>

text \<open>
  Every action returns \<open>void\<close> and replaces part of the state through \<open>set\<close>. The two actions
  whose result is examined below keep the returned value in the model, as \<open>unit\<close>;
  the others are state transformers. \<open>Math.random().toString(36).substring(2, 9)\<close> is an argument: the string
  that the draw produced.
\<close>

definition deleteWarehouse :: "string \<Rightarrow> state \<Rightarrow> state" where
  "deleteWarehouse ident s =
     s\<lparr>warehouses := filter (\<lambda>warehouse. w_id warehouse \<noteq> ident) (warehouses s)\<rparr>"

definition addRoute :: "string \<Rightarrow> route \<Rightarrow> state \<Rightarrow> state" where
  "addRoute random_id route s =
     (let newRoute = route\<lparr>r_id := random_id\<rparr>
      in s\<lparr>routes := routes s @ [newRoute]\<rparr>)"

text \<open>The object spread \<open>{ ...route, ...data }\<close>: a field present in \<open>data\<close> wins.\<close>

definition spread :: "route \<Rightarrow> partial_route \<Rightarrow> route" where
  "spread route data =
     \<lparr>r_id = (case p_id data of None \<Rightarrow> r_id route | Some v \<Rightarrow> v),
      r_warehouseId = (case p_warehouseId data of None \<Rightarrow> r_warehouseId route | Some v \<Rightarrow> v),
      truckId = (case p_truckId data of None \<Rightarrow> truckId route | Some v \<Rightarrow> v),
      r_stores = (case p_stores data of None \<Rightarrow> r_stores route | Some v \<Rightarrow> v),
      distance = (case p_distance data of None \<Rightarrow> distance route | Some v \<Rightarrow> v),
      estimatedTime = (case p_estimatedTime data of None \<Rightarrow> estimatedTime route | Some v \<Rightarrow> v),
      created = (case p_created data of None \<Rightarrow> created route | Some v \<Rightarrow> v)\<rparr>"

definition updateRoute :: "string \<Rightarrow> partial_route \<Rightarrow> state \<Rightarrow> unit \<times> state" where
  "updateRoute ident data s =
     ((), s\<lparr>routes := map (\<lambda>route. if r_id route = ident then spread route data else route)
                          (routes s)\<rparr>)"

definition deleteRoute :: "string \<Rightarrow> state \<Rightarrow> unit \<times> state" where
  "deleteRoute ident s =
     ((), s\<lparr>routes := filter (\<lambda>route. r_id route \<noteq> ident) (routes s)\<rparr>)"

section \<open>Route generation (\<open>generateRoutes\<close>)\<close>

subsection \<open>Distance\<close>

definition calculateDistance :: "engine \<Rightarrow> jsnum \<Rightarrow> jsnum \<Rightarrow> jsnum \<Rightarrow> jsnum \<Rightarrow> jsnum" where
  "calculateDistance fp lat1 lon1 lat2 lon2 =
     (let R = Fin 6371;
          dLat = jdiv fp (jmul fp (jsub fp lat2 lat1) (Math_PI fp)) (Fin 180);
          dLon = jdiv fp (jmul fp (jsub fp lon2 lon1) (Math_PI fp)) (Fin 180);
          a = jadd fp (jmul fp (Math_sin fp (jdiv fp dLat (Fin 2))) (Math_sin fp (jdiv fp dLat (Fin 2))))
                (jmul fp (jmul fp (jmul fp (Math_cos fp (jdiv fp (jmul fp lat1 (Math_PI fp)) (Fin 180)))
                                  (Math_cos fp (jdiv fp (jmul fp lat2 (Math_PI fp)) (Fin 180))))
                            (Math_sin fp (jdiv fp dLon (Fin 2))))
                      (Math_sin fp (jdiv fp dLon (Fin 2))));
          c = jmul fp (Fin 2) (Math_atan2 fp (Math_sqrt fp a) (Math_sqrt fp (jsub fp (Fin 1) a)))
      in jmul fp R c)"

subsection \<open>Arrays\<close>

text \<open>
  \<open>forEach\<close> with a callback that may throw: the first exception ends the loop and is the
  result. The callback gets the element and the state that the loop threads.
\<close>

fun forEach :: "('a \<Rightarrow> 's \<Rightarrow> error + 's) \<Rightarrow> 'a list \<Rightarrow> 's \<Rightarrow> error + 's" where
  "forEach f [] s = Inr s"
| "forEach f (x # xs) s = (case f x s of Inl e \<Rightarrow> Inl e | Inr s' \<Rightarrow> forEach f xs s')"

text \<open>\<open>arr[i]\<close> is \<open>undefined\<close> out of range.\<close>

definition at_index :: "'a list \<Rightarrow> nat \<Rightarrow> 'a option" where
  "at_index xs i = (if i < length xs then Some (xs ! i) else None)"

text \<open>
  \<open>Array.prototype.sort\<close> with a comparison function is stable; a comparison that
  returns \<open>NaN\<close> counts as \<open>0\<close>. The model inserts each element behind the elements it
  does not have to precede, which is the result of every stable sort whenever the
  comparison function is consistent. When it is not, the order is left to the engine,
  and the model's order is one of those that can come out.
\<close>

fun positive :: "jsnum \<Rightarrow> bool" where
  "positive (Fin v) = (0 < v)"
| "positive PosInf = True"
| "positive NegInf = False"
| "positive NaN = False"

fun sort_insert :: "('a \<Rightarrow> 'a \<Rightarrow> jsnum) \<Rightarrow> 'a \<Rightarrow> 'a list \<Rightarrow> 'a list" where
  "sort_insert cmp x [] = [x]"
| "sort_insert cmp x (y # ys) =
     (if positive (cmp x y) then y # sort_insert cmp x ys else x # y # ys)"

definition array_sort :: "('a \<Rightarrow> 'a \<Rightarrow> jsnum) \<Rightarrow> 'a list \<Rightarrow> 'a list" where
  "array_sort cmp xs = foldr (sort_insert cmp) xs []"

subsection \<open>The object \<open>truckAssignments\<close>\<close>

text \<open>
  \<open>truckAssignments\<close> is an object literal \<open>{}\<close> used as a dictionary from truck id to the
  array of store ids. Its own properties are kept in creation order. The key
  \<open>__proto__\<close> is not a property: assigning an array to it makes that array the
  prototype, and reading it gives the prototype back.
\<close>

record jsobject =
  proto_array :: "string list option"
  own_props :: "(string \<times> string list) list"

definition empty_object :: jsobject where
  "empty_object = \<lparr>proto_array = None, own_props = []\<rparr>"

fun put :: "string \<Rightarrow> string list \<Rightarrow> (string \<times> string list) list \<Rightarrow> (string \<times> string list) list" where
  "put k v [] = [(k, v)]"
| "put k v (p # ps) = (if fst p = k then (k, v) # ps else p # put k v ps)"

definition obj_assign :: "string \<Rightarrow> string list \<Rightarrow> jsobject \<Rightarrow> jsobject" where
  "obj_assign k v ob =
     (if k = ''__proto__'' then ob\<lparr>proto_array := Some v\<rparr>
      else ob\<lparr>own_props := put k v (own_props ob)\<rparr>)"

text \<open>
  \<open>ob[k].push(x)\<close>. When \<open>k\<close> is no own property the lookup goes to the prototype chain,
  where nothing but the array behind \<open>__proto__\<close> has a \<open>push\<close>: the call throws.
\<close>

definition obj_push :: "string \<Rightarrow> string \<Rightarrow> jsobject \<Rightarrow> error + jsobject" where
  "obj_push k x ob =
     (if k = ''__proto__'' then
        (case proto_array ob of
           None \<Rightarrow> Inl TypeError
         | Some arr \<Rightarrow> Inr (ob\<lparr>proto_array := Some (arr @ [x])\<rparr>))
      else
        (case map_of (own_props ob) k of
           None \<Rightarrow> Inl TypeError
         | Some arr \<Rightarrow> Inr (ob\<lparr>own_props := put k (arr @ [x]) (own_props ob)\<rparr>)))"

text \<open>
  \<open>Object.entries\<close> lists the own properties: first the keys that are array indices
  (canonical decimal numerals below \<open>2^32 - 1\<close>) in ascending numeric order, then the
  other keys in creation order.
\<close>

definition digit :: "char \<Rightarrow> bool" where
  "digit c = (c \<in> set ''0123456789'')"

definition numeric_value :: "string \<Rightarrow> nat" where
  "numeric_value k = foldl (\<lambda>n c. 10 * n + (of_char c - 48)) 0 k"

definition array_index :: "string \<Rightarrow> bool" where
  "array_index k =
     (k \<noteq> [] \<and> list_all digit k \<and> (if hd k = CHR ''0'' then length k = 1 else True)
      \<and> numeric_value k < 2 ^ 32 - 1)"

definition Object_entries :: "jsobject \<Rightarrow> (string \<times> string list) list" where
  "Object_entries ob =
     sort_key (\<lambda>p. numeric_value (fst p)) (filter (\<lambda>p. array_index (fst p)) (own_props ob))
     @ filter (\<lambda>p. \<not> array_index (fst p)) (own_props ob)"

subsection \<open>One warehouse\<close>

definition warehouseTrucks :: "warehouse \<Rightarrow> truck list \<Rightarrow> truck list" where
  "warehouseTrucks warehouse ts = filter (\<lambda>t. warehouseId t = w_id warehouse) ts"

text \<open>\<open>{ ...store, distance: ... }\<close> is the store paired with its distance.\<close>

definition storesWithDistance :: "engine \<Rightarrow> warehouse \<Rightarrow> store list \<Rightarrow> (store \<times> jsnum) list" where
  "storesWithDistance fp warehouse ss =
     map (\<lambda>store. (store,
            calculateDistance fp (lat (w_location warehouse)) (lng (w_location warehouse))
              (lat (s_location store)) (lng (s_location store)))) ss"

definition by_distance :: "engine \<Rightarrow> store \<times> jsnum \<Rightarrow> store \<times> jsnum \<Rightarrow> jsnum" where
  "by_distance fp a b = jsub fp (snd a) (snd b)"

definition sortedStores :: "engine \<Rightarrow> warehouse \<Rightarrow> store list \<Rightarrow> (store \<times> jsnum) list" where
  "sortedStores fp warehouse ss = array_sort (by_distance fp) (storesWithDistance fp warehouse ss)"

definition initAssignments :: "truck list \<Rightarrow> jsobject" where
  "initAssignments wts = foldl (\<lambda>ob t. obj_assign (t_id t) [] ob) empty_object wts"

definition assignStore :: "truck list \<Rightarrow> nat \<times> (store \<times> jsnum) \<Rightarrow> jsobject \<Rightarrow> error + jsobject" where
  "assignStore wts ix ob =
     (let truckIndex = fst ix mod length wts
      in case at_index wts truckIndex of
           None \<Rightarrow> Inl TypeError
         | Some t \<Rightarrow> obj_push (t_id t) (s_id (fst (snd ix))) ob)"

definition truckAssignments :: "engine \<Rightarrow> warehouse \<Rightarrow> store list \<Rightarrow> truck list \<Rightarrow> error + jsobject" where
  "truckAssignments fp warehouse ss ts =
     (let wts = warehouseTrucks warehouse ts
      in forEach (assignStore wts) (enumerate 0 (sortedStores fp warehouse ss)) (initAssignments wts))"

text \<open>
  The walk over one truck's stores: the running total and the previous position.
  \<open>stores.find(...)!\<close> asserts that the store exists; reading \<open>location\<close> of \<open>undefined\<close>
  throws.
\<close>

definition visit :: "engine \<Rightarrow> store list \<Rightarrow> string \<Rightarrow> jsnum \<times> jsnum \<times> jsnum \<Rightarrow> error + jsnum \<times> jsnum \<times> jsnum" where
  "visit fp ss storeId acc =
     (case acc of (km, prevLat, prevLng) \<Rightarrow>
        (case find (\<lambda>s. s_id s = storeId) ss of
           None \<Rightarrow> Inl TypeError
         | Some store \<Rightarrow>
             Inr (jadd fp km
                    (calculateDistance fp prevLat prevLng (lat (s_location store)) (lng (s_location store))),
                  lat (s_location store), lng (s_location store))))"

definition totalDistance :: "engine \<Rightarrow> warehouse \<Rightarrow> store list \<Rightarrow> string list \<Rightarrow> error + jsnum" where
  "totalDistance fp warehouse ss storeIds =
     (case forEach (visit fp ss) storeIds
             (Fin 0, lat (w_location warehouse), lng (w_location warehouse)) of
        Inl e \<Rightarrow> Inl e
      | Inr (km, prevLat, prevLng) \<Rightarrow>
          Inr (jadd fp km
                 (calculateDistance fp prevLat prevLng
                    (lat (w_location warehouse)) (lng (w_location warehouse)))))"

text \<open>
  The body of the callback of \<open>Object.entries(truckAssignments).forEach\<close> behind its
  early return: the route object for one entry. \<open>n\<close> is the number of routes created so
  far in this cycle; it indexes the draws of \<open>Math.random\<close> and the readings of the clock.
  \<open>trucks.find(...)!\<close> asserts that the truck exists; reading \<open>speed\<close> of \<open>undefined\<close>
  throws.
\<close>

definition buildRoute ::
  "engine \<Rightarrow> (nat \<Rightarrow> string) \<Rightarrow> (nat \<Rightarrow> string) \<Rightarrow> store list \<Rightarrow> truck list \<Rightarrow> warehouse
     \<Rightarrow> string \<times> string list \<Rightarrow> nat \<Rightarrow> error + route" where
  "buildRoute fp random_id now ss ts warehouse entry n =
     (case entry of (truck_id, storeIds) \<Rightarrow>
        (case totalDistance fp warehouse ss storeIds of
           Inl e \<Rightarrow> Inl e
         | Inr km \<Rightarrow>
             (case find (\<lambda>t. t_id t = truck_id) ts of
                None \<Rightarrow> Inl TypeError
              | Some t \<Rightarrow>
                  (let estimated = jdiv fp km (speed t)
                   in Inr \<lparr>r_id = random_id n, r_warehouseId = w_id warehouse,
                           truckId = truck_id, r_stores = storeIds,
                           distance = toFixed2 fp km,
                           estimatedTime = toFixed2 fp estimated,
                           created = now n\<rparr>))))"

text \<open>
  \<open>set\<close> of the store: the state that the update function gives becomes the current state
  and is handed to the subscribers at once, so each call of \<open>set\<close> within an action is a
  store update of its own. The model keeps the current state and the list of the states
  stored so far, oldest first.
\<close>

definition set_state :: "(state \<Rightarrow> state) \<Rightarrow> state \<times> state list \<Rightarrow> state \<times> state list" where
  "set_state f z = (f (fst z), snd z @ [f (fst z)])"

text \<open>
  The callback: nothing for an empty array, else the route is appended to \<open>routes\<close> by a
  \<open>set\<close> of its own.
\<close>

definition createRoute ::
  "engine \<Rightarrow> (nat \<Rightarrow> string) \<Rightarrow> (nat \<Rightarrow> string) \<Rightarrow> store list \<Rightarrow> truck list \<Rightarrow> warehouse
     \<Rightarrow> string \<times> string list \<Rightarrow> nat \<times> state \<times> state list \<Rightarrow> error + nat \<times> state \<times> state list" where
  "createRoute fp random_id now ss ts warehouse entry st =
     (if length (snd entry) = 0 then Inr st
      else
        (case buildRoute fp random_id now ss ts warehouse entry (fst st) of
           Inl e \<Rightarrow> Inl e
         | Inr route \<Rightarrow>
             Inr (Suc (fst st),
                  set_state (\<lambda>state. state\<lparr>routes := routes state @ [route]\<rparr>) (snd st))))"

definition processWarehouse ::
  "engine \<Rightarrow> (nat \<Rightarrow> string) \<Rightarrow> (nat \<Rightarrow> string) \<Rightarrow> store list \<Rightarrow> truck list \<Rightarrow> warehouse
     \<Rightarrow> nat \<times> state \<times> state list \<Rightarrow> error + nat \<times> state \<times> state list" where
  "processWarehouse fp random_id now ss ts warehouse st =
     (if length (warehouseTrucks warehouse ts) = 0 then Inr st
      else
        (case truckAssignments fp warehouse ss ts of
           Inl e \<Rightarrow> Inl e
         | Inr ob \<Rightarrow> forEach (createRoute fp random_id now ss ts warehouse) (Object_entries ob) st))"

subsection \<open>The whole cycle\<close>

text \<open>
  The action reads the three collections from the state it starts in, empties \<open>routes\<close>
  with a first \<open>set\<close>, and goes through the warehouses. \<open>generateRoutes\<close> is the state that
  the action leaves, \<open>storeUpdates\<close> the states that its calls of \<open>set\<close> stored one after the
  other.
\<close>

definition cycle ::
  "engine \<Rightarrow> (nat \<Rightarrow> string) \<Rightarrow> (nat \<Rightarrow> string) \<Rightarrow> state \<Rightarrow> error + nat \<times> state \<times> state list" where
  "cycle fp random_id now s =
     forEach (processWarehouse fp random_id now (stores s) (trucks s)) (warehouses s)
       (0, set_state (\<lambda>state. state\<lparr>routes := []\<rparr>) (s, []))"

definition generateRoutes :: "engine \<Rightarrow> (nat \<Rightarrow> string) \<Rightarrow> (nat \<Rightarrow> string) \<Rightarrow> state \<Rightarrow> error + state" where
  "generateRoutes fp random_id now s =
     (case cycle fp random_id now s of
        Inl e \<Rightarrow> Inl e
      | Inr st \<Rightarrow> Inr (fst (snd st)))"

definition storeUpdates ::
  "engine \<Rightarrow> (nat \<Rightarrow> string) \<Rightarrow> (nat \<Rightarrow> string) \<Rightarrow> state \<Rightarrow> error + state list" where
  "storeUpdates fp random_id now s =
     (case cycle fp random_id now s of
        Inl e \<Rightarrow> Inl e
      | Inr st \<Rightarrow> Inr (snd (snd st)))"


section \<open>Notions used in the statements\<close>

text \<open>The elements of a list at the positions \<open>i\<close> with \<open>i mod M = j\<close>, in order.\<close>

definition picks :: "nat \<Rightarrow> nat \<Rightarrow> 'a list \<Rightarrow> 'a list" where
  "picks M j xs = map (\<lambda>i. xs ! i) (filter (\<lambda>i. i mod M = j) [0..<length xs])"

text \<open>
  The store ids that the round robin pushed onto the array of truck id \<open>k\<close> while
  warehouse \<open>w\<close> was processed; empty when \<open>k\<close> has no array of its own.
\<close>

definition assignedTo :: "engine \<Rightarrow> warehouse \<Rightarrow> store list \<Rightarrow> truck list \<Rightarrow> string \<Rightarrow> string list" where
  "assignedTo fp w ss ts k =
     (case truckAssignments fp w ss ts of
        Inl e \<Rightarrow> []
      | Inr ob \<Rightarrow> (case map_of (own_props ob) k of None \<Rightarrow> [] | Some ids \<Rightarrow> ids))"

text \<open>
  The entries for which the cycle creates a route while it processes warehouse \<open>w\<close>, in
  creation order, and the same for all warehouses of a state.
\<close>

definition routeEntries :: "engine \<Rightarrow> store list \<Rightarrow> truck list \<Rightarrow> warehouse \<Rightarrow> (string \<times> string list) list" where
  "routeEntries fp ss ts w =
     (if length (warehouseTrucks w ts) = 0 then []
      else case truckAssignments fp w ss ts of
             Inl e \<Rightarrow> []
           | Inr ob \<Rightarrow> filter (\<lambda>entry. length (snd entry) \<noteq> 0) (Object_entries ob))"

definition workList :: "engine \<Rightarrow> state \<Rightarrow> (warehouse \<times> string \<times> string list) list" where
  "workList fp s =
     concat (map (\<lambda>w. map (Pair w) (routeEntries fp (stores s) (trucks s) w)) (warehouses s))"

text \<open>A route without its identifier and its creation time.\<close>

definition content :: "route \<Rightarrow> string \<times> string \<times> string list \<times> jsnum \<times> jsnum" where
  "content r = (r_warehouseId r, truckId r, r_stores r, distance r, estimatedTime r)"



text \<open>The value of a finite number, to order distances by.\<close>

fun fin_value :: "jsnum \<Rightarrow> real" where
  "fin_value (Fin v) = v"
| "fin_value _ = 0"

text \<open>
  The comparison function of the sort is consistent on a list of distances: each of them
  is finite, and the difference of two is positive exactly when the first is the larger.
  With the arithmetic of doubles the second holds of all finite numbers, so that this
  says that no distance is \<open>NaN\<close>. On such a list every stable sort gives the same order;
  on others the order is implementation-defined.
\<close>

fun is_finite :: "jsnum \<Rightarrow> bool" where
  "is_finite (Fin v) = True"
| "is_finite _ = False"

definition comparable :: "engine \<Rightarrow> (store \<times> jsnum) list \<Rightarrow> bool" where
  "comparable fp ds \<longleftrightarrow>
     (\<forall>p \<in> set ds. \<forall>q \<in> set ds.
        is_finite (snd p)
        \<and> (positive (by_distance fp p q) \<longleftrightarrow> fin_value (snd q) < fin_value (snd p)))"


text \<open>
  The states that a store goes through when the routes \<open>rs\<close> are appended to the routes of
  \<open>st\<close> one at a time.
\<close>

fun growth :: "state \<Rightarrow> route list \<Rightarrow> state list" where
  "growth st [] = []"
| "growth st (r # rs) = st\<lparr>routes := routes st @ [r]\<rparr> # growth (st\<lparr>routes := routes st @ [r]\<rparr>) rs"

text \<open>The truck ids of a roster can all be keys of an object.\<close>

definition keys_ok :: "truck list \<Rightarrow> jsobject \<Rightarrow> bool" where
  "keys_ok wts ob \<longleftrightarrow>
     (''__proto__'' \<in> t_id ` set wts \<longrightarrow> proto_array ob \<noteq> None)
     \<and> t_id ` set wts - {''__proto__''} \<subseteq> fst ` set (own_props ob)"

section \<open>Example states\<close>

text \<open>
  The scenario of the specification's section 8, with a second depot: depots on the
  equator, vehicles \<open>v1\<close> and \<open>v2\<close> at the first depot and \<open>v3\<close> at the second, three
  destinations at longitudes 1, 2 and 3 (listed out of order), and a route left from an
  earlier cycle.
\<close>

definition loc :: "real \<Rightarrow> real \<Rightarrow> location" where
  "loc a b = \<lparr>lat = Fin a, lng = Fin b\<rparr>"

definition depot :: "string \<Rightarrow> real \<Rightarrow> warehouse" where
  "depot i x = \<lparr>w_id = i, w_name = i, w_location = loc 0 x, w_capacity = Fin 1000, w_address = []\<rparr>"

definition dest :: "string \<Rightarrow> real \<Rightarrow> store" where
  "dest i x = \<lparr>s_id = i, s_name = i, s_location = loc 0 x, demand = Fin 10, s_address = [],
                s_timeWindow = None\<rparr>"

definition vehicle :: "string \<Rightarrow> string \<Rightarrow> real \<Rightarrow> truck" where
  "vehicle i w v = \<lparr>t_id = i, t_name = i, t_capacity = Fin 100, speed = Fin v, warehouseId = w\<rparr>"

definition old_route :: "string \<Rightarrow> route" where
  "old_route i = \<lparr>r_id = i, r_warehouseId = ''w1'', truckId = ''v1'', r_stores = [''d1''],
                   distance = Fin 5, estimatedTime = Fin 1, created = ''2024-01-01T00:00:00.000Z''\<rparr>"

definition scenario :: state where
  "scenario =
     \<lparr>warehouses = [depot ''w1'' 0, depot ''w2'' 10],
      stores = [dest ''d3'' 3, dest ''d1'' 1, dest ''d2'' 2],
      trucks = [vehicle ''v1'' ''w1'' 60, vehicle ''v2'' ''w1'' 60, vehicle ''v3'' ''w2'' 50],
      routes = [old_route ''r1'', old_route ''r2'']\<rparr>"

text \<open>Two runs of the identifier generator and of the clock.\<close>

definition example_ids :: "nat \<Rightarrow> string" where
  "example_ids n = CHR ''r'' # replicate n CHR ''x''"

definition example_clock :: "nat \<Rightarrow> string" where
  "example_clock n = ''2025-01-01T00:00:00.000Z''"

definition other_ids :: "nat \<Rightarrow> string" where
  "other_ids n = CHR ''q'' # replicate n CHR ''y''"

definition other_clock :: "nat \<Rightarrow> string" where
  "other_clock n = ''2025-01-02T00:00:00.000Z''"






text \<open>The routes that a cycle creates on these states.\<close>

definition scenario_routes :: "(nat \<Rightarrow> string) \<Rightarrow> (nat \<Rightarrow> string) \<Rightarrow> route list" where
  "scenario_routes random_id now =
     [\<lparr>r_id = random_id 0, r_warehouseId = ''w1'', truckId = ''v1'', r_stores = [''d1'', ''d3''],
        distance = toFixed2 ideal (Fin (6371 * pi / 30)),
        estimatedTime = toFixed2 ideal (Fin (6371 * pi / 1800)), created = now 0\<rparr>,
      \<lparr>r_id = random_id 1, r_warehouseId = ''w1'', truckId = ''v2'', r_stores = [''d2''],
        distance = toFixed2 ideal (Fin (6371 * pi / 45)),
        estimatedTime = toFixed2 ideal (Fin (6371 * pi / 2700)), created = now 1\<rparr>,
      \<lparr>r_id = random_id 2, r_warehouseId = ''w2'', truckId = ''v3'',
        r_stores = [''d3'', ''d2'', ''d1''],
        distance = toFixed2 ideal (Fin (6371 * pi / 10)),
        estimatedTime = toFixed2 ideal (Fin (6371 * pi / 500)), created = now 2\<rparr>]"


text \<open>
  Partial routes: no field, an identifier only, a distance only. And an identifier
  generator whose draws collide.
\<close>

definition no_fields :: partial_route where
  "no_fields = \<lparr>p_id = None, p_warehouseId = None, p_truckId = None, p_stores = None,
                 p_distance = None, p_estimatedTime = None, p_created = None\<rparr>"

definition with_id :: "string \<Rightarrow> partial_route" where
  "with_id v = no_fields\<lparr>p_id := Some v\<rparr>"

definition with_distance :: "jsnum \<Rightarrow> partial_route" where
  "with_distance v = no_fields\<lparr>p_distance := Some v\<rparr>"

definition stuck_ids :: "nat \<Rightarrow> string" where
  "stuck_ids n = ''k''"

section \<open>Properties of route generation\<close>

subsection \<open>forEach\<close>

lemma forEach_append:
  "forEach f (xs @ ys) s = (case forEach f xs s of Inl e \<Rightarrow> Inl e | Inr s' \<Rightarrow> forEach f ys s')"
  by (induction xs arbitrary: s) (auto split: sum.splits)

lemma forEach_single: "forEach f [x] s = f x s"
  by (cases "f x s") auto

lemma forEach_snoc:
  "forEach f (xs @ [x]) s = (case forEach f xs s of Inl e \<Rightarrow> Inl e | Inr s' \<Rightarrow> f x s')"
  unfolding forEach_append forEach_single ..

lemma forEach_invariant:
  assumes "I s"
    and "\<And>x s. x \<in> set xs \<Longrightarrow> I s \<Longrightarrow> \<exists>s'. f x s = Inr s' \<and> I s'"
  shows "\<exists>s'. forEach f xs s = Inr s' \<and> I s'"
  using assms
proof (induction xs arbitrary: s)
  case Nil
  then show ?case by simp
next
  case (Cons x xs)
  from Cons.prems obtain s1 where s1: "f x s = Inr s1" "I s1" by (meson list.set_intros(1))
  have "\<exists>s'. forEach f xs s1 = Inr s' \<and> I s'"
    by (rule Cons.IH[OF s1(2)]) (use Cons.prems(2) in auto)
  with s1 show ?case by simp
qed

subsection \<open>Properties of an object\<close>

lemma map_fst_put:
  "map fst (put k v ps) = (if k \<in> fst ` set ps then map fst ps else map fst ps @ [k])"
  by (induction ps) auto

lemma set_fst_put: "fst ` set (put k v ps) = insert k (fst ` set ps)"
  using map_fst_put[of k v ps] by (metis (no_types, lifting) insert_absorb list.set_map
      list.simps(15) set_append Un_insert_right sup_bot.right_neutral set_simps(2) empty_set)

lemma map_of_put: "map_of (put k v ps) = (map_of ps)(k \<mapsto> v)"
  by (induction ps) auto

lemma distinct_put: "distinct (map fst ps) \<Longrightarrow> distinct (map fst (put k v ps))"
  by (simp add: map_fst_put)

lemma set_put_subset: "set (put k v ps) \<subseteq> insert (k, v) (set ps)"
  by (induction ps) auto

lemma put_values:
  "(k', v') \<in> set (put k v ps) \<Longrightarrow> (k' = k \<and> v' = v) \<or> (k', v') \<in> set ps"
  using set_put_subset by fastforce

subsection \<open>The sort is a permutation\<close>

lemma mset_sort_insert: "mset (sort_insert cmp x ys) = add_mset x (mset ys)"
  by (induction ys) auto

lemma mset_array_sort: "mset (array_sort cmp xs) = mset xs"
  unfolding array_sort_def by (induction xs) (auto simp: mset_sort_insert)

lemma set_array_sort: "set (array_sort cmp xs) = set xs"
  using mset_array_sort by (metis set_mset_mset)

lemma length_array_sort: "length (array_sort cmp xs) = length xs"
  using mset_array_sort by (metis size_mset)

subsection \<open>Object.entries is a permutation of the own properties\<close>

lemma mset_Object_entries: "mset (Object_entries ob) = mset (own_props ob)"
  unfolding Object_entries_def by (simp add: mset_filter)

lemma set_Object_entries: "set (Object_entries ob) = set (own_props ob)"
  using mset_Object_entries by (metis set_mset_mset)

lemma distinct_Object_entries:
  "distinct (map fst (own_props ob)) \<Longrightarrow> distinct (map fst (Object_entries ob))"
proof -
  assume "distinct (map fst (own_props ob))"
  moreover have "mset (map fst (Object_entries ob)) = mset (map fst (own_props ob))"
    using mset_Object_entries by (metis mset_map)
  ultimately show ?thesis using mset_eq_imp_distinct_iff by blast
qed

subsection \<open>The assignment object after its initialisation\<close>

lemma picks_Nil: "picks M j [] = []"
  by (simp add: picks_def)

lemma picks_snoc:
  "picks M j (xs @ [x]) = (if length xs mod M = j then picks M j xs @ [x] else picks M j xs)"
proof -
  have "map (\<lambda>i. (xs @ [x]) ! i) (filter (\<lambda>i. i mod M = j) [0..<length xs])
        = map (\<lambda>i. xs ! i) (filter (\<lambda>i. i mod M = j) [0..<length xs])"
    by (rule map_cong) (auto simp: nth_append)
  then show ?thesis by (simp add: picks_def)
qed


lemma length_picks:
  "0 < M \<Longrightarrow> j < M \<Longrightarrow>
   length (picks M j xs) = length xs div M + (if j < length xs mod M then 1 else 0)"
proof (induction xs rule: rev_induct)
  case Nil
  then show ?case by (simp add: picks_Nil)
next
  case (snoc x xs)
  then show ?case
    by (auto simp: picks_snoc mod_Suc div_Suc)
qed

lemma put_fresh: "k \<notin> fst ` set ps \<Longrightarrow> put k v ps = ps @ [(k, v)]"
  by (induction ps) auto

lemma init_fold_distinct:
  assumes "distinct (map fst ps @ map t_id wts)" "''__proto__'' \<notin> t_id ` set wts"
  shows "foldl (\<lambda>ob t. obj_assign (t_id t) [] ob) \<lparr>proto_array = pa, own_props = ps\<rparr> wts
         = \<lparr>proto_array = pa, own_props = ps @ map (\<lambda>t. (t_id t, [])) wts\<rparr>"
  using assms
proof (induction wts arbitrary: ps)
  case Nil
  then show ?case by simp
next
  case (Cons t wts)
  have fresh: "t_id t \<notin> fst ` set ps" using Cons.prems(1) by auto
  have np: "t_id t \<noteq> ''__proto__''" using Cons.prems(2) by auto
  have d: "distinct (map fst (ps @ [(t_id t, [])]) @ map t_id wts)"
    using Cons.prems(1) by auto
  have "foldl (\<lambda>ob t. obj_assign (t_id t) [] ob) \<lparr>proto_array = pa, own_props = ps\<rparr> (t # wts)
        = foldl (\<lambda>ob t. obj_assign (t_id t) [] ob) \<lparr>proto_array = pa, own_props = ps @ [(t_id t, [])]\<rparr> wts"
    using np by (simp add: obj_assign_def put_fresh[OF fresh])
  also have "\<dots> = \<lparr>proto_array = pa, own_props = (ps @ [(t_id t, [])]) @ map (\<lambda>t. (t_id t, [])) wts\<rparr>"
    by (rule Cons.IH[OF d]) (use Cons.prems(2) in auto)
  finally show ?case by simp
qed

lemma initAssignments_distinct:
  assumes "distinct (map t_id wts)" "''__proto__'' \<notin> t_id ` set wts"
  shows "initAssignments wts = \<lparr>proto_array = None, own_props = map (\<lambda>t. (t_id t, [])) wts\<rparr>"
  using init_fold_distinct[of "[]" wts None] assms
  by (simp add: initAssignments_def empty_object_def)

lemma keys_obj_assign:
  "fst ` set (own_props (obj_assign k v ob))
     = (if k = ''__proto__'' then fst ` set (own_props ob) else insert k (fst ` set (own_props ob)))"
  by (simp add: obj_assign_def set_fst_put)

lemma proto_obj_assign:
  "proto_array (obj_assign k v ob) = (if k = ''__proto__'' then Some v else proto_array ob)"
  by (simp add: obj_assign_def)

lemma distinct_obj_assign:
  "distinct (map fst (own_props ob)) \<Longrightarrow> distinct (map fst (own_props (obj_assign k v ob)))"
  by (simp add: obj_assign_def distinct_put)

lemma values_obj_assign:
  "\<forall>p \<in> set (own_props ob). snd p = [] \<Longrightarrow> \<forall>p \<in> set (own_props (obj_assign k [] ob)). snd p = []"
  by (auto simp: obj_assign_def dest!: put_values)

lemma init_fold_keys:
  "fst ` set (own_props (foldl (\<lambda>ob t. obj_assign (t_id t) [] ob) ob wts))
     = fst ` set (own_props ob) \<union> (t_id ` set wts - {''__proto__''})"
  by (induction wts arbitrary: ob) (auto simp: keys_obj_assign)

lemma init_fold_proto:
  "proto_array (foldl (\<lambda>ob t. obj_assign (t_id t) [] ob) ob wts)
     = (if ''__proto__'' \<in> t_id ` set wts then Some [] else proto_array ob)"
  by (induction wts arbitrary: ob) (auto simp: proto_obj_assign)

lemma init_fold_distinct_keys:
  "distinct (map fst (own_props ob)) \<Longrightarrow>
     distinct (map fst (own_props (foldl (\<lambda>ob t. obj_assign (t_id t) [] ob) ob wts)))"
  by (induction wts arbitrary: ob) (auto simp: distinct_obj_assign)

lemma init_fold_values:
  "\<forall>p \<in> set (own_props ob). snd p = [] \<Longrightarrow>
     \<forall>p \<in> set (own_props (foldl (\<lambda>ob t. obj_assign (t_id t) [] ob) ob wts)). snd p = []"
proof (induction wts arbitrary: ob)
  case Nil
  then show ?case by simp
next
  case (Cons t wts)
  show ?case unfolding foldl_Cons by (rule Cons.IH) (rule values_obj_assign[OF Cons.prems])
qed

lemma initAssignments_general:
  "fst ` set (own_props (initAssignments wts)) = t_id ` set wts - {''__proto__''}"
  "keys_ok wts (initAssignments wts)"
  "distinct (map fst (own_props (initAssignments wts)))"
  "\<forall>p \<in> set (own_props (initAssignments wts)). snd p = []"
proof -
  show 1: "fst ` set (own_props (initAssignments wts)) = t_id ` set wts - {''__proto__''}"
    by (simp add: initAssignments_def init_fold_keys empty_object_def)
  have 2: "''__proto__'' \<in> t_id ` set wts \<Longrightarrow> proto_array (initAssignments wts) = Some []"
    unfolding initAssignments_def init_fold_proto by simp
  show "keys_ok wts (initAssignments wts)"
    unfolding keys_ok_def using 1 2 by auto
  show "distinct (map fst (own_props (initAssignments wts)))"
    by (simp add: initAssignments_def init_fold_distinct_keys empty_object_def)
  show "\<forall>p \<in> set (own_props (initAssignments wts)). snd p = []"
    unfolding initAssignments_def by (rule init_fold_values) (simp add: empty_object_def)
qed

subsection \<open>Round robin, one destination at a time\<close>

lemma put_mem: "(k, v) \<in> set (put k v ps)"
  by (induction ps) auto

lemma put_other: "p \<in> set ps \<Longrightarrow> fst p \<noteq> k \<Longrightarrow> p \<in> set (put k v ps)"
  by (induction ps) auto

lemma map_fst_put_present: "k \<in> fst ` set ps \<Longrightarrow> map fst (put k v ps) = map fst ps"
  by (simp add: map_fst_put)

lemma obj_push_own:
  assumes "k \<noteq> ''__proto__''" "map_of (own_props ob) k = Some arr"
  shows "obj_push k x ob = Inr (ob\<lparr>own_props := put k (arr @ [x]) (own_props ob)\<rparr>)"
  using assms by (simp add: obj_push_def)

lemma obj_push_proto:
  assumes "proto_array ob = Some arr"
  shows "obj_push ''__proto__'' x ob = Inr (ob\<lparr>proto_array := Some (arr @ [x])\<rparr>)"
  using assms by (simp add: obj_push_def)

lemma assignStore_index:
  assumes "wts \<noteq> []"
  shows "assignStore wts (i, x) ob = obj_push (t_id (wts ! (i mod length wts))) (s_id (fst x)) ob"
  using assms by (simp add: assignStore_def at_index_def)

lemma assignStore_step:
  assumes ne: "wts \<noteq> []" and ok: "keys_ok wts ob" and d: "distinct (map fst (own_props ob))"
  shows "\<exists>ob'. assignStore wts (i, x) ob = Inr ob' \<and> keys_ok wts ob'
           \<and> map fst (own_props ob') = map fst (own_props ob)
           \<and> (\<forall>p' \<in> set (own_props ob'). \<exists>p \<in> set (own_props ob).
                 fst p = fst p' \<and> set (snd p') \<subseteq> insert (s_id (fst x)) (set (snd p)))
           \<and> (\<forall>p \<in> set (own_props ob). \<exists>p' \<in> set (own_props ob'). set (snd p) \<subseteq> set (snd p'))
           \<and> (''__proto__'' \<notin> t_id ` set wts \<longrightarrow>
                 (\<exists>p' \<in> set (own_props ob'). s_id (fst x) \<in> set (snd p')))"
proof -
  define t where "t = wts ! (i mod length wts)"
  have t: "t \<in> set wts" using ne by (simp add: t_def)
  have eq: "assignStore wts (i, x) ob = obj_push (t_id t) (s_id (fst x)) ob"
    unfolding t_def by (rule assignStore_index[OF ne])
  show ?thesis
  proof (cases "t_id t = ''__proto__''")
    case True
    then have "''__proto__'' \<in> t_id ` set wts" using t by (metis imageI)
    with ok obtain arr where arr: "proto_array ob = Some arr" by (auto simp: keys_ok_def)
    have "assignStore wts (i, x) ob = Inr (ob\<lparr>proto_array := Some (arr @ [s_id (fst x)])\<rparr>)"
      unfolding eq True by (rule obj_push_proto[OF arr])
    moreover have "keys_ok wts (ob\<lparr>proto_array := Some (arr @ [s_id (fst x)])\<rparr>)"
      using ok by (simp add: keys_ok_def)
    ultimately show ?thesis using \<open>''__proto__'' \<in> t_id ` set wts\<close> by auto
  next
    case False
    then have "t_id t \<in> fst ` set (own_props ob)" using ok t by (auto simp: keys_ok_def)
    then obtain arr where arr: "map_of (own_props ob) (t_id t) = Some arr"
      by (metis domD dom_map_of_conv_image_fst)
    then have mem: "(t_id t, arr) \<in> set (own_props ob)" by (rule map_of_SomeD)
    define ps' where "ps' = put (t_id t) (arr @ [s_id (fst x)]) (own_props ob)"
    have res: "assignStore wts (i, x) ob = Inr (ob\<lparr>own_props := ps'\<rparr>)"
      unfolding eq ps'_def by (rule obj_push_own[OF False arr])
    have keys: "map fst ps' = map fst (own_props ob)"
      unfolding ps'_def using \<open>t_id t \<in> fst ` set (own_props ob)\<close> by (rule map_fst_put_present)
    have ok': "keys_ok wts (ob\<lparr>own_props := ps'\<rparr>)"
      using ok keys by (simp add: keys_ok_def) (metis list.set_map)
    have a: "\<forall>p' \<in> set ps'. \<exists>p \<in> set (own_props ob).
                 fst p = fst p' \<and> set (snd p') \<subseteq> insert (s_id (fst x)) (set (snd p))"
    proof
      fix p' assume "p' \<in> set ps'"
      then have "p' = (t_id t, arr @ [s_id (fst x)]) \<or> p' \<in> set (own_props ob)"
        unfolding ps'_def using set_put_subset by fastforce
      then show "\<exists>p \<in> set (own_props ob).
                 fst p = fst p' \<and> set (snd p') \<subseteq> insert (s_id (fst x)) (set (snd p))"
        using mem by force
    qed
    have b: "\<forall>p \<in> set (own_props ob). \<exists>p' \<in> set ps'. set (snd p) \<subseteq> set (snd p')"
    proof
      fix p assume p: "p \<in> set (own_props ob)"
      show "\<exists>p' \<in> set ps'. set (snd p) \<subseteq> set (snd p')"
      proof (cases "fst p = t_id t")
        case True
        then have "snd p = arr" using p arr d by (metis map_of_is_SomeI option.inject prod.collapse)
        then have "set (snd p) \<subseteq> set (snd (t_id t, arr @ [s_id (fst x)]))" by auto
        moreover have "(t_id t, arr @ [s_id (fst x)]) \<in> set ps'"
          unfolding ps'_def by (rule put_mem)
        ultimately show ?thesis by blast
      next
        case False
        then have "p \<in> set ps'" unfolding ps'_def using p by (rule put_other[rotated])
        then show ?thesis by blast
      qed
    qed
    have "(t_id t, arr @ [s_id (fst x)]) \<in> set ps'"
      unfolding ps'_def by (rule put_mem)
    moreover have "s_id (fst x) \<in> set (snd (t_id t, arr @ [s_id (fst x)]))" by simp
    ultimately have c: "\<exists>p' \<in> set ps'. s_id (fst x) \<in> set (snd p')" by blast
    show ?thesis using res ok' keys a b c by simp
  qed
qed

lemma distribute_general:
  assumes ne: "wts \<noteq> []"
  shows "\<exists>ob. forEach (assignStore wts) (enumerate 0 xs) (initAssignments wts) = Inr ob
           \<and> keys_ok wts ob
           \<and> map fst (own_props ob) = map fst (own_props (initAssignments wts))
           \<and> (\<forall>p \<in> set (own_props ob). set (snd p) \<subseteq> s_id ` fst ` set xs)
           \<and> (''__proto__'' \<notin> t_id ` set wts \<longrightarrow>
                 (\<forall>x \<in> set xs. \<exists>p \<in> set (own_props ob). s_id (fst x) \<in> set (snd p)))"
proof (induction xs rule: rev_induct)
  case Nil
  show ?case using initAssignments_general[of wts] by auto
next
  case (snoc x xs)
  then obtain ob where ob: "forEach (assignStore wts) (enumerate 0 xs) (initAssignments wts) = Inr ob"
    "keys_ok wts ob" "map fst (own_props ob) = map fst (own_props (initAssignments wts))"
    "\<forall>p \<in> set (own_props ob). set (snd p) \<subseteq> s_id ` fst ` set xs"
    "''__proto__'' \<notin> t_id ` set wts \<longrightarrow>
                 (\<forall>x \<in> set xs. \<exists>p \<in> set (own_props ob). s_id (fst x) \<in> set (snd p))"
    by blast
  have d: "distinct (map fst (own_props ob))"
    unfolding ob(3) by (rule initAssignments_general(3))
  from assignStore_step[OF ne ob(2) d, of "length xs" x] obtain ob' where
    ob': "assignStore wts (length xs, x) ob = Inr ob'" "keys_ok wts ob'"
      "map fst (own_props ob') = map fst (own_props ob)"
      "\<forall>p' \<in> set (own_props ob'). \<exists>p \<in> set (own_props ob).
                 fst p = fst p' \<and> set (snd p') \<subseteq> insert (s_id (fst x)) (set (snd p))"
      "\<forall>p \<in> set (own_props ob). \<exists>p' \<in> set (own_props ob'). set (snd p) \<subseteq> set (snd p')"
      "''__proto__'' \<notin> t_id ` set wts \<longrightarrow>
                 (\<exists>p' \<in> set (own_props ob'). s_id (fst x) \<in> set (snd p'))"
    by blast
  have run: "forEach (assignStore wts) (enumerate 0 (xs @ [x])) (initAssignments wts) = Inr ob'"
    by (simp add: enumerate_append_eq forEach_snoc ob(1) ob'(1))
  have v: "\<forall>p \<in> set (own_props ob'). set (snd p) \<subseteq> s_id ` fst ` set (xs @ [x])"
  proof
    fix p' assume "p' \<in> set (own_props ob')"
    with ob'(4) obtain p where "p \<in> set (own_props ob)"
      "set (snd p') \<subseteq> insert (s_id (fst x)) (set (snd p))" by blast
    with ob(4) show "set (snd p') \<subseteq> s_id ` fst ` set (xs @ [x])" by fastforce
  qed
  have c: "''__proto__'' \<notin> t_id ` set wts \<longrightarrow>
                 (\<forall>y \<in> set (xs @ [x]). \<exists>p \<in> set (own_props ob'). s_id (fst y) \<in> set (snd p))"
  proof (intro impI ballI)
    fix y assume np: "''__proto__'' \<notin> t_id ` set wts" and y: "y \<in> set (xs @ [x])"
    show "\<exists>p \<in> set (own_props ob'). s_id (fst y) \<in> set (snd p)"
    proof (cases "y = x")
      case True
      then show ?thesis using ob'(6) np by blast
    next
      case False
      then have "y \<in> set xs" using y by simp
      with ob(5) np obtain p where p: "p \<in> set (own_props ob)" "s_id (fst y) \<in> set (snd p)" by blast
      with ob'(5) obtain p' where "p' \<in> set (own_props ob')" "set (snd p) \<subseteq> set (snd p')" by blast
      with p show ?thesis by blast
    qed
  qed
  show ?case using run ob'(2) ob'(3) ob(3) v c by simp
qed

subsection \<open>Round robin over a roster with distinct identifiers\<close>

lemma map_of_enumerate_keys:
  assumes "distinct (map key ts)" "j < length ts"
  shows "map_of (map (\<lambda>p. (key (snd p), g (fst p))) (enumerate n ts)) (key (ts ! j)) = Some (g (n + j))"
  using assms
proof (induction ts arbitrary: n j)
  case Nil
  then show ?case by simp
next
  case (Cons t ts)
  show ?case
  proof (cases j)
    case 0
    then show ?thesis by simp
  next
    case (Suc j')
    then have j': "j' < length ts" using Cons.prems(2) by simp
    have "key (ts ! j') \<noteq> key t" using Cons.prems(1) j' by (metis distinct.simps(2) list.simps(9) nth_map nth_mem length_map)
    then show ?thesis using Cons.IH[of j' "Suc n"] Cons.prems(1) j' Suc by simp
  qed
qed

lemma put_enumerate_keys:
  assumes "distinct (map key ts)" "j < length ts"
  shows "put (key (ts ! j)) v (map (\<lambda>p. (key (snd p), g (fst p))) (enumerate n ts))
         = map (\<lambda>p. (key (snd p), if fst p = n + j then v else g (fst p))) (enumerate n ts)"
  using assms
proof (induction ts arbitrary: n j)
  case Nil
  then show ?case by simp
next
  case (Cons t ts)
  show ?case
  proof (cases j)
    case 0
    have "map (\<lambda>p. (key (snd p), if fst p = n then v else g (fst p))) (enumerate (Suc n) ts)
          = map (\<lambda>p. (key (snd p), g (fst p))) (enumerate (Suc n) ts)"
      by (rule map_cong) (auto simp: in_set_enumerate_eq)
    then show ?thesis using 0 by simp
  next
    case (Suc j')
    then have j': "j' < length ts" using Cons.prems(2) by simp
    have ne: "key (ts ! j') \<noteq> key t" using Cons.prems(1) j' by (metis distinct.simps(2) list.simps(9) nth_map nth_mem length_map)
    show ?thesis using Cons.IH[of j' "Suc n"] Cons.prems(1) j' Suc ne by simp
  qed
qed

lemma distribute_distinct:
  assumes ne: "wts \<noteq> []" and d: "distinct (map t_id wts)" and np: "''__proto__'' \<notin> t_id ` set wts"
  shows "forEach (assignStore wts) (enumerate 0 xs) (initAssignments wts)
         = Inr \<lparr>proto_array = None,
                own_props = map (\<lambda>p. (t_id (snd p), map (\<lambda>x. s_id (fst x)) (picks (length wts) (fst p) xs)))
                              (enumerate 0 wts)\<rparr>"
proof (induction xs rule: rev_induct)
  case Nil
  have "map (\<lambda>p. (t_id (snd p), [])) (enumerate 0 wts)
        = map (\<lambda>t. (t_id t, [])) (map snd (enumerate 0 wts))"
    unfolding map_map by (simp add: comp_def)
  then have h: "map (\<lambda>p. (t_id (snd p), [])) (enumerate 0 wts) = map (\<lambda>t. (t_id t, [])) wts"
    by simp
  show ?case unfolding initAssignments_distinct[OF d np] picks_Nil list.map h
    by simp
next
  case (snoc x xs)
  define M where "M = length wts"
  define j where "j = length xs mod M"
  define g where "g = (\<lambda>i. map (\<lambda>x. s_id (fst x)) (picks M i xs))"
  define ob where "ob = \<lparr>proto_array = None, own_props = map (\<lambda>p. (t_id (snd p), g (fst p))) (enumerate 0 wts)\<rparr>"
  have jM: "j < length wts" using ne by (simp add: j_def M_def)
  have k: "t_id (wts ! j) \<noteq> ''__proto__''" using np jM by (metis image_eqI nth_mem)
  have look: "map_of (own_props ob) (t_id (wts ! j)) = Some (g j)"
    using map_of_enumerate_keys[OF d jM, of g 0] by (simp add: ob_def)
  have step: "assignStore wts (length xs, x) ob
        = Inr (ob\<lparr>own_props := put (t_id (wts ! j)) (g j @ [s_id (fst x)]) (own_props ob)\<rparr>)"
    unfolding assignStore_index[OF ne] j_def[symmetric, unfolded M_def]
    by (rule obj_push_own[OF k look])
  have upd: "put (t_id (wts ! j)) (g j @ [s_id (fst x)]) (own_props ob)
        = map (\<lambda>p. (t_id (snd p), if fst p = j then g j @ [s_id (fst x)] else g (fst p))) (enumerate 0 wts)"
    using put_enumerate_keys[OF d jM, of "g j @ [s_id (fst x)]" g 0] by (simp add: ob_def)
  have new: "(\<lambda>p::nat \<times> truck. (t_id (snd p), if fst p = j then g j @ [s_id (fst x)] else g (fst p)))
        = (\<lambda>p. (t_id (snd p), map (\<lambda>x. s_id (fst x)) (picks M (fst p) (xs @ [x]))))"
    by (auto simp: fun_eq_iff picks_snoc g_def j_def)
  have "forEach (assignStore wts) (enumerate 0 (xs @ [x])) (initAssignments wts)
        = assignStore wts (length xs, x) ob"
    by (simp add: enumerate_append_eq forEach_snoc snoc ob_def g_def M_def)
  also have "\<dots> = Inr \<lparr>proto_array = None,
                own_props = map (\<lambda>p. (t_id (snd p), map (\<lambda>x. s_id (fst x)) (picks M (fst p) (xs @ [x]))))
                              (enumerate 0 wts)\<rparr>"
    unfolding step upd new by (simp add: ob_def)
  finally show ?case unfolding M_def .
qed

subsection \<open>The sizes of the assignments\<close>

lemma truckAssignments_distinct:
  assumes "warehouseTrucks w ts \<noteq> []" "distinct (map t_id (warehouseTrucks w ts))"
    "''__proto__'' \<notin> t_id ` set (warehouseTrucks w ts)"
  shows "truckAssignments fp w ss ts
         = Inr \<lparr>proto_array = None,
                own_props = map (\<lambda>p. (t_id (snd p),
                                  map (\<lambda>x. s_id (fst x))
                                    (picks (length (warehouseTrucks w ts)) (fst p) (sortedStores fp w ss))))
                              (enumerate 0 (warehouseTrucks w ts))\<rparr>"
  unfolding truckAssignments_def Let_def by (rule distribute_distinct[OF assms])

lemma assignedTo_distinct:
  assumes "warehouseTrucks w ts \<noteq> []" "distinct (map t_id (warehouseTrucks w ts))"
    "''__proto__'' \<notin> t_id ` set (warehouseTrucks w ts)" "j < length (warehouseTrucks w ts)"
  shows "assignedTo fp w ss ts (t_id (warehouseTrucks w ts ! j))
         = map (\<lambda>x. s_id (fst x)) (picks (length (warehouseTrucks w ts)) j (sortedStores fp w ss))"
proof -
  have "map_of (map (\<lambda>p. (t_id (snd p),
                  map (\<lambda>x. s_id (fst x))
                    (picks (length (warehouseTrucks w ts)) (fst p) (sortedStores fp w ss))))
             (enumerate 0 (warehouseTrucks w ts))) (t_id (warehouseTrucks w ts ! j))
        = Some (map (\<lambda>x. s_id (fst x)) (picks (length (warehouseTrucks w ts)) (0 + j) (sortedStores fp w ss)))"
    by (rule map_of_enumerate_keys[OF assms(2,4)])
  then show ?thesis
    unfolding assignedTo_def truckAssignments_distinct[OF assms(1,2,3)] by simp
qed

lemma sum_list_indicator:
  "sum_list (map (\<lambda>j. if j < r then 1 else 0) [0..<M]) = min r M"
  by (induction M) auto

lemma sum_list_counts:
  assumes "0 < M"
  shows "sum_list (map (\<lambda>j. N div M + (if j < N mod M then 1 else 0)) [0..<M]) = (N::nat)"
proof -
  have "sum_list (map (\<lambda>j. N div M + (if j < N mod M then 1 else 0)) [0..<M])
        = sum_list (map (\<lambda>j. N div M) [0..<M]) + sum_list (map (\<lambda>j. if j < N mod M then 1 else 0) [0..<M])"
    by (rule sum_list_addf)
  also have "sum_list (map (\<lambda>j. N div M) [0..<M]) = M * (N div M)"
    by (simp add: sum_list_triv)
  also have "sum_list (map (\<lambda>j. if j < N mod M then 1 else 0) [0..<M]) = N mod M"
    unfolding sum_list_indicator using assms by (simp add: min_def)
  finally show ?thesis by simp
qed

lemma length_assignedTo:
  assumes "warehouseTrucks w ts \<noteq> []" "distinct (map t_id (warehouseTrucks w ts))"
    "''__proto__'' \<notin> t_id ` set (warehouseTrucks w ts)" "j < length (warehouseTrucks w ts)"
  shows "length (assignedTo fp w ss ts (t_id (warehouseTrucks w ts ! j)))
         = length ss div length (warehouseTrucks w ts)
           + (if j < length ss mod length (warehouseTrucks w ts) then 1 else 0)"
  unfolding assignedTo_distinct[OF assms] using assms(1,4)
  by (simp add: length_picks sortedStores_def length_array_sort storesWithDistance_def)

text \<open>
  C3. For a depot with a roster of \<open>M \<ge> 1\<close> vehicles and \<open>N\<close> destinations, the numbers of
  destinations assigned to the vehicles of the roster add up to \<open>N\<close>, and the numbers of any
  two vehicles differ by at most one. Vehicle identifiers are unique, as the data model
  says, and none is the reserved key \<open>__proto__\<close>. The bound \<open>M \<le> N\<close> is not needed.
\<close>

theorem round_robin_balanced:
  assumes "warehouseTrucks w ts \<noteq> []"
    and "distinct (map t_id (warehouseTrucks w ts))"
    and "''__proto__'' \<notin> t_id ` set (warehouseTrucks w ts)"
  shows "sum_list (map (\<lambda>t. length (assignedTo fp w ss ts (t_id t))) (warehouseTrucks w ts)) = length ss
       \<and> (\<forall>t1 \<in> set (warehouseTrucks w ts). \<forall>t2 \<in> set (warehouseTrucks w ts).
            length (assignedTo fp w ss ts (t_id t1)) \<le> length (assignedTo fp w ss ts (t_id t2)) + 1)"
proof
  define wts where "wts = warehouseTrucks w ts"
  define M where "M = length wts"
  have M: "0 < M" using assms(1) by (simp add: M_def wts_def)
  have "map (\<lambda>t. length (assignedTo fp w ss ts (t_id t))) wts
        = map (\<lambda>t. length (assignedTo fp w ss ts (t_id t))) (map (\<lambda>j. wts ! j) [0..<M])"
    unfolding M_def map_nth ..
  also have "\<dots> = map (\<lambda>j. length (assignedTo fp w ss ts (t_id (wts ! j)))) [0..<M]"
    by (simp add: comp_def)
  also have "\<dots> = map (\<lambda>j. length ss div M + (if j < length ss mod M then 1 else 0)) [0..<M]"
    by (rule map_cong) (simp_all add: length_assignedTo[OF assms] wts_def M_def)
  finally show "sum_list (map (\<lambda>t. length (assignedTo fp w ss ts (t_id t))) (warehouseTrucks w ts)) = length ss"
    unfolding wts_def[symmetric] by (simp only: sum_list_counts[OF M])
  show "\<forall>t1 \<in> set (warehouseTrucks w ts). \<forall>t2 \<in> set (warehouseTrucks w ts).
            length (assignedTo fp w ss ts (t_id t1)) \<le> length (assignedTo fp w ss ts (t_id t2)) + 1"
  proof (intro ballI)
    fix t1 t2 assume "t1 \<in> set (warehouseTrucks w ts)" "t2 \<in> set (warehouseTrucks w ts)"
    then obtain j1 j2 where j: "j1 < length (warehouseTrucks w ts)" "t1 = warehouseTrucks w ts ! j1"
      "j2 < length (warehouseTrucks w ts)" "t2 = warehouseTrucks w ts ! j2"
      by (metis in_set_conv_nth)
    show "length (assignedTo fp w ss ts (t_id t1)) \<le> length (assignedTo fp w ss ts (t_id t2)) + 1"
      unfolding j(2,4) length_assignedTo[OF assms j(1)] length_assignedTo[OF assms j(3)] by simp
  qed
qed

subsection \<open>The sort on a list with a consistent comparison\<close>

lemma sort_insert_insort:
  assumes "comparable fp (x # ys)"
  shows "sort_insert (by_distance fp) x ys = insort_key (\<lambda>p. fin_value (snd p)) x ys"
  using assms
proof (induction ys)
  case Nil
  then show ?case by simp
next
  case (Cons y ys)
  have pos: "positive (by_distance fp x y) = (\<not> fin_value (snd x) \<le> fin_value (snd y))"
    using Cons.prems unfolding comparable_def by (simp add: not_le)
  have "comparable fp (x # ys)"
    using Cons.prems unfolding comparable_def by simp
  then have "sort_insert (by_distance fp) x ys = insort_key (\<lambda>p. fin_value (snd p)) x ys"
    by (rule Cons.IH)
  then show ?case by (simp add: pos)
qed

lemma comparable_subset:
  assumes "comparable fp xs" "set ys \<subseteq> set xs"
  shows "comparable fp ys"
  using assms unfolding comparable_def by blast

lemma array_sort_sort_key:
  assumes "comparable fp xs"
  shows "array_sort (by_distance fp) xs = sort_key (\<lambda>p. fin_value (snd p)) xs"
  using assms
proof (induction xs)
  case Nil
  then show ?case by (simp add: array_sort_def)
next
  case (Cons x xs)
  have c: "comparable fp xs"
    by (rule comparable_subset[OF Cons.prems]) auto
  have ih: "array_sort (by_distance fp) xs = sort_key (\<lambda>p. fin_value (snd p)) xs"
    by (rule Cons.IH[OF c])
  have "comparable fp (x # array_sort (by_distance fp) xs)"
    by (rule comparable_subset[OF Cons.prems]) (simp add: set_array_sort)
  then have "sort_insert (by_distance fp) x (array_sort (by_distance fp) xs)
        = insort_key (\<lambda>p. fin_value (snd p)) x (array_sort (by_distance fp) xs)"
    by (rule sort_insert_insort)
  moreover have "array_sort (by_distance fp) (x # xs)
        = sort_insert (by_distance fp) x (array_sort (by_distance fp) xs)"
    by (simp add: array_sort_def)
  ultimately show ?case unfolding ih by (simp add: sort_key_def)
qed

lemma sortedStores_sort_key:
  assumes "comparable fp (storesWithDistance fp w ss)"
  shows "sortedStores fp w ss = sort_key (\<lambda>p. fin_value (snd p)) (storesWithDistance fp w ss)"
  unfolding sortedStores_def by (rule array_sort_sort_key[OF assms])

lemma nth_in_picks:
  assumes "i < length xs"
  shows "xs ! i \<in> set (picks M (i mod M) xs)"
  using assms by (auto simp: picks_def)


subsection \<open>Route creation never throws\<close>

lemma visit_total:
  assumes "sid \<in> s_id ` set ss"
  shows "\<exists>acc'. visit fp ss sid acc = Inr acc'"
proof -
  have "find (\<lambda>s. s_id s = sid) ss \<noteq> None"
    using assms by (auto simp: find_None_iff)
  then show ?thesis by (cases acc) (auto simp: visit_def)
qed

lemma totalDistance_total:
  assumes "set ids \<subseteq> s_id ` set ss"
  shows "\<exists>km. totalDistance fp w ss ids = Inr km"
proof -
  have "\<exists>acc'. forEach (visit fp ss) ids (Fin 0, lat (w_location w), lng (w_location w)) = Inr acc' \<and> True"
    by (rule forEach_invariant) (use assms visit_total in auto)
  then show ?thesis by (auto simp: totalDistance_def split: prod.splits)
qed

lemma buildRoute_total:
  assumes "set (snd e) \<subseteq> s_id ` set ss" "fst e \<in> t_id ` set ts"
  shows "\<exists>r. buildRoute fp random_id now ss ts w e n = Inr r"
proof -
  obtain km where km: "totalDistance fp w ss (snd e) = Inr km"
    using totalDistance_total[OF assms(1)] by blast
  have "find (\<lambda>t. t_id t = fst e) ts \<noteq> None"
    using assms(2) by (auto simp: find_None_iff)
  then show ?thesis using km by (cases e) (auto simp: buildRoute_def)
qed

lemma buildRoute_fields:
  assumes "buildRoute fp random_id now ss ts w e n = Inr r"
  shows "r_id r = random_id n" "created r = now n" "r_warehouseId r = w_id w"
    "truckId r = fst e" "r_stores r = snd e"
  using assms by (auto simp: buildRoute_def Let_def split: prod.splits sum.splits option.splits)


lemma buildRoute_content:
  assumes "buildRoute fp random_id now ss ts w e n = Inr r"
    and "buildRoute fp random_id' now' ss ts w e n' = Inr r'"
  shows "content r' = content r"
  using assms by (auto simp: buildRoute_def Let_def content_def split: prod.splits sum.splits option.splits)

subsection \<open>The routes of one warehouse and of the cycle\<close>

lemma growth_append:
  "growth st (a @ b) = growth st a @ growth (st\<lparr>routes := routes st @ a\<rparr>) b"
  by (induction a arbitrary: st) simp_all

lemma growth_take:
  "growth st rs = map (\<lambda>k. st\<lparr>routes := routes st @ take (Suc k) rs\<rparr>) [0..<length rs]"
proof (induction rs arbitrary: st)
  case Nil
  show ?case by simp
next
  case (Cons r rs)
  have "map (\<lambda>k. st\<lparr>routes := routes st @ take (Suc k) (r # rs)\<rparr>) [0..<length (r # rs)]
        = st\<lparr>routes := routes st @ [r]\<rparr>
          # map (\<lambda>k. st\<lparr>routes := routes st @ take (Suc k) (r # rs)\<rparr>) (map Suc [0..<length rs])"
    by (simp add: upt_conv_Cons map_Suc_upt del: upt_Suc)
  also have "map (\<lambda>k. st\<lparr>routes := routes st @ take (Suc k) (r # rs)\<rparr>) (map Suc [0..<length rs])
        = map (\<lambda>k. st\<lparr>routes := routes st @ [r]\<rparr>\<lparr>routes := routes (st\<lparr>routes := routes st @ [r]\<rparr>) @ take (Suc k) rs\<rparr>)
            [0..<length rs]"
    by simp
  finally show ?case using Cons.IH[of "st\<lparr>routes := routes st @ [r]\<rparr>"] by simp
qed

lemma createRoute_all:
  assumes "\<forall>e \<in> set es. set (snd e) \<subseteq> s_id ` set ss \<and> fst e \<in> t_id ` set ts"
  shows "\<exists>rs. forEach (createRoute fp random_id now ss ts w) es (n, st, hist)
               = Inr (n + length rs, st\<lparr>routes := routes st @ rs\<rparr>, hist @ growth st rs)
           \<and> list_all2 (\<lambda>p r. buildRoute fp random_id now ss ts w (snd p) (fst p) = Inr r)
                (enumerate n (filter (\<lambda>e. length (snd e) \<noteq> 0) es)) rs"
  using assms
proof (induction es arbitrary: n st hist)
  case Nil
  show ?case by simp
next
  case (Cons e es)
  show ?case
  proof (cases "length (snd e) = 0")
    case True
    obtain rs where rs: "forEach (createRoute fp random_id now ss ts w) es (n, st, hist)
               = Inr (n + length rs, st\<lparr>routes := routes st @ rs\<rparr>, hist @ growth st rs)"
      "list_all2 (\<lambda>p r. buildRoute fp random_id now ss ts w (snd p) (fst p) = Inr r)
                (enumerate n (filter (\<lambda>e. length (snd e) \<noteq> 0) es)) rs"
      using Cons.IH[of n st hist] Cons.prems by auto
    have "createRoute fp random_id now ss ts w e (n, st, hist) = Inr (n, st, hist)"
      using True by (simp add: createRoute_def)
    then show ?thesis using rs True by auto
  next
    case False
    have "set (snd e) \<subseteq> s_id ` set ss" "fst e \<in> t_id ` set ts"
      using Cons.prems by simp_all
    then obtain r where r: "buildRoute fp random_id now ss ts w e n = Inr r"
      using buildRoute_total by blast
    define st' where "st' = st\<lparr>routes := routes st @ [r]\<rparr>"
    have step: "createRoute fp random_id now ss ts w e (n, st, hist) = Inr (Suc n, st', hist @ [st'])"
      using False r by (simp add: createRoute_def set_state_def st'_def)
    obtain rs where rs: "forEach (createRoute fp random_id now ss ts w) es (Suc n, st', hist @ [st'])
               = Inr (Suc n + length rs, st'\<lparr>routes := routes st' @ rs\<rparr>, (hist @ [st']) @ growth st' rs)"
      "list_all2 (\<lambda>p r. buildRoute fp random_id now ss ts w (snd p) (fst p) = Inr r)
                (enumerate (Suc n) (filter (\<lambda>e. length (snd e) \<noteq> 0) es)) rs"
      using Cons.IH[of "Suc n" st' "hist @ [st']"] Cons.prems by auto
    have "forEach (createRoute fp random_id now ss ts w) (e # es) (n, st, hist)
          = Inr (n + length (r # rs), st\<lparr>routes := routes st @ (r # rs)\<rparr>, hist @ growth st (r # rs))"
      using step rs(1) by (simp add: st'_def)
    moreover have "list_all2 (\<lambda>p r. buildRoute fp random_id now ss ts w (snd p) (fst p) = Inr r)
                (enumerate n (filter (\<lambda>e. length (snd e) \<noteq> 0) (e # es))) (r # rs)"
      using False r rs(2) by simp
    ultimately show ?thesis by blast
  qed
qed

lemma sortedStores_ids: "s_id ` fst ` set (sortedStores fp w ss) = s_id ` set ss"
proof -
  have "fst ` set (sortedStores fp w ss) = set (map fst (storesWithDistance fp w ss))"
    by (simp add: sortedStores_def set_array_sort)
  also have "map fst (storesWithDistance fp w ss) = ss"
    by (simp add: storesWithDistance_def comp_def)
  finally show ?thesis by simp
qed

lemma truckAssignments_general:
  assumes "warehouseTrucks w ts \<noteq> []"
  shows "\<exists>ob. truckAssignments fp w ss ts = Inr ob
           \<and> distinct (map fst (own_props ob))
           \<and> fst ` set (own_props ob) = t_id ` set (warehouseTrucks w ts) - {''__proto__''}
           \<and> (\<forall>p \<in> set (own_props ob). set (snd p) \<subseteq> s_id ` set ss)
           \<and> (''__proto__'' \<notin> t_id ` set (warehouseTrucks w ts) \<longrightarrow>
                 (\<forall>st \<in> set ss. \<exists>p \<in> set (own_props ob). s_id st \<in> set (snd p)))"
proof -
  obtain ob where ob:
    "forEach (assignStore (warehouseTrucks w ts)) (enumerate 0 (sortedStores fp w ss))
        (initAssignments (warehouseTrucks w ts)) = Inr ob"
    "map fst (own_props ob) = map fst (own_props (initAssignments (warehouseTrucks w ts)))"
    "\<forall>p \<in> set (own_props ob). set (snd p) \<subseteq> s_id ` fst ` set (sortedStores fp w ss)"
    "''__proto__'' \<notin> t_id ` set (warehouseTrucks w ts) \<longrightarrow>
       (\<forall>x \<in> set (sortedStores fp w ss). \<exists>p \<in> set (own_props ob). s_id (fst x) \<in> set (snd p))"
    using distribute_general[OF assms, of "sortedStores fp w ss"] by blast
  have 1: "truckAssignments fp w ss ts = Inr ob"
    using ob(1) by (simp add: truckAssignments_def)
  have 2: "distinct (map fst (own_props ob))"
    unfolding ob(2) by (rule initAssignments_general(3))
  have "set (map fst (own_props ob)) = set (map fst (own_props (initAssignments (warehouseTrucks w ts))))"
    unfolding ob(2) ..
  then have 3: "fst ` set (own_props ob) = t_id ` set (warehouseTrucks w ts) - {''__proto__''}"
    using initAssignments_general(1)[of "warehouseTrucks w ts"] by simp
  have 4: "\<forall>p \<in> set (own_props ob). set (snd p) \<subseteq> s_id ` set ss"
    using ob(3) unfolding sortedStores_ids .
  have 5: "''__proto__'' \<notin> t_id ` set (warehouseTrucks w ts) \<longrightarrow>
                 (\<forall>st \<in> set ss. \<exists>p \<in> set (own_props ob). s_id st \<in> set (snd p))"
  proof (intro impI ballI)
    fix st assume np: "''__proto__'' \<notin> t_id ` set (warehouseTrucks w ts)" and st: "st \<in> set ss"
    then have "s_id st \<in> s_id ` fst ` set (sortedStores fp w ss)"
      unfolding sortedStores_ids by simp
    then obtain x where x: "x \<in> set (sortedStores fp w ss)" "s_id (fst x) = s_id st" by auto
    from ob(4) np x(1) have "\<exists>p \<in> set (own_props ob). s_id (fst x) \<in> set (snd p)" by blast
    then show "\<exists>p \<in> set (own_props ob). s_id st \<in> set (snd p)" unfolding x(2) .
  qed
  show ?thesis using 1 2 3 4 5 by blast
qed

lemma truckAssignments_total:
  assumes "warehouseTrucks w ts \<noteq> []"
  shows "\<exists>ob. truckAssignments fp w ss ts = Inr ob"
  using truckAssignments_general[OF assms, of fp ss] by (elim exE conjE) (rule exI)

lemma truckAssignments_props:
  assumes "warehouseTrucks w ts \<noteq> []" "truckAssignments fp w ss ts = Inr ob"
  shows "distinct (map fst (own_props ob))"
    and "fst ` set (own_props ob) = t_id ` set (warehouseTrucks w ts) - {''__proto__''}"
    and "\<forall>p \<in> set (own_props ob). set (snd p) \<subseteq> s_id ` set ss"
    and "''__proto__'' \<notin> t_id ` set (warehouseTrucks w ts) \<Longrightarrow>
           \<forall>st \<in> set ss. \<exists>p \<in> set (own_props ob). s_id st \<in> set (snd p)"
proof -
  from truckAssignments_general[OF assms(1), of fp ss] obtain ob' where ob':
    "truckAssignments fp w ss ts = Inr ob'"
    "distinct (map fst (own_props ob'))"
    "fst ` set (own_props ob') = t_id ` set (warehouseTrucks w ts) - {''__proto__''}"
    "\<forall>p \<in> set (own_props ob'). set (snd p) \<subseteq> s_id ` set ss"
    "''__proto__'' \<notin> t_id ` set (warehouseTrucks w ts) \<longrightarrow>
                 (\<forall>st \<in> set ss. \<exists>p \<in> set (own_props ob'). s_id st \<in> set (snd p))"
    by (elim exE conjE)
  have eq: "ob' = ob" using ob'(1) assms(2) by simp
  show "distinct (map fst (own_props ob))" using ob'(2) unfolding eq .
  show "fst ` set (own_props ob) = t_id ` set (warehouseTrucks w ts) - {''__proto__''}"
    using ob'(3) unfolding eq .
  show "\<forall>p \<in> set (own_props ob). set (snd p) \<subseteq> s_id ` set ss"
    using ob'(4) unfolding eq .
  show "\<forall>st \<in> set ss. \<exists>p \<in> set (own_props ob). s_id st \<in> set (snd p)"
    if "''__proto__'' \<notin> t_id ` set (warehouseTrucks w ts)"
    using ob'(5) that unfolding eq by (rule mp)
qed

lemma routeEntries_ok:
  "\<forall>e \<in> set (routeEntries fp ss ts w). set (snd e) \<subseteq> s_id ` set ss \<and> fst e \<in> t_id ` set ts"
proof (cases "warehouseTrucks w ts = []")
  case True
  then show ?thesis by (simp add: routeEntries_def)
next
  case False
  obtain ob where ob1: "truckAssignments fp w ss ts = Inr ob"
    using truckAssignments_total[OF False] by blast
  note ob = ob1 truckAssignments_props(2,3)[OF False ob1]
  have "t_id ` set (warehouseTrucks w ts) \<subseteq> t_id ` set ts"
    by (auto simp: warehouseTrucks_def)
  then have "fst ` set (own_props ob) \<subseteq> t_id ` set ts"
    unfolding ob(2) by blast
  then have k: "\<forall>p \<in> set (own_props ob). fst p \<in> t_id ` set ts"
    by blast
  have "set (routeEntries fp ss ts w) \<subseteq> set (own_props ob)"
    using False ob(1) by (simp add: routeEntries_def set_Object_entries)
  then show ?thesis using k ob(3) by blast
qed

lemma processWarehouse_routes:
  "\<exists>rs. processWarehouse fp random_id now ss ts w (n, st, hist)
           = Inr (n + length rs, st\<lparr>routes := routes st @ rs\<rparr>, hist @ growth st rs)
       \<and> list_all2 (\<lambda>p r. buildRoute fp random_id now ss ts w (snd p) (fst p) = Inr r)
            (enumerate n (routeEntries fp ss ts w)) rs"
proof (cases "warehouseTrucks w ts = []")
  case True
  then show ?thesis by (simp add: processWarehouse_def routeEntries_def)
next
  case False
  obtain ob where ob: "truckAssignments fp w ss ts = Inr ob"
    using truckAssignments_total[OF False] by blast
  have es: "routeEntries fp ss ts w = filter (\<lambda>e. length (snd e) \<noteq> 0) (Object_entries ob)"
    using False ob by (simp add: routeEntries_def)
  have ok: "\<forall>e \<in> set (Object_entries ob). set (snd e) \<subseteq> s_id ` set ss \<and> fst e \<in> t_id ` set ts"
  proof
    fix e assume e: "e \<in> set (Object_entries ob)"
    show "set (snd e) \<subseteq> s_id ` set ss \<and> fst e \<in> t_id ` set ts"
    proof (cases "length (snd e) = 0")
      case True
      have "fst e \<in> fst ` set (own_props ob)" using e by (simp add: set_Object_entries)
      moreover have "fst ` set (own_props ob) = t_id ` set (warehouseTrucks w ts) - {''__proto__''}"
        by (rule truckAssignments_props(2)[OF False ob])
      moreover have "t_id ` set (warehouseTrucks w ts) \<subseteq> t_id ` set ts"
        by (auto simp: warehouseTrucks_def)
      ultimately show ?thesis using True by auto
    next
      case False
      then have "e \<in> set (routeEntries fp ss ts w)" using e es by simp
      then show ?thesis using routeEntries_ok by blast
    qed
  qed
  have "processWarehouse fp random_id now ss ts w (n, st, hist)
        = forEach (createRoute fp random_id now ss ts w) (Object_entries ob) (n, st, hist)"
    using False ob by (simp add: processWarehouse_def)
  then show ?thesis unfolding es using createRoute_all[OF ok] by simp
qed

lemma enumerate_Pair:
  "enumerate n (map (Pair w) es) = map (\<lambda>p. (fst p, (w, snd p))) (enumerate n es)"
  by (induction es arbitrary: n) auto

lemma warehouses_routes:
  "\<exists>rs. forEach (processWarehouse fp random_id now ss ts) ws (n, st, hist)
           = Inr (n + length rs, st\<lparr>routes := routes st @ rs\<rparr>, hist @ growth st rs)
       \<and> list_all2 (\<lambda>p r. buildRoute fp random_id now ss ts (fst (snd p)) (snd (snd p)) (fst p) = Inr r)
            (enumerate n (concat (map (\<lambda>w. map (Pair w) (routeEntries fp ss ts w)) ws))) rs"
proof (induction ws arbitrary: n st hist)
  case Nil
  show ?case by simp
next
  case (Cons w ws)
  obtain r1 where r1: "processWarehouse fp random_id now ss ts w (n, st, hist)
           = Inr (n + length r1, st\<lparr>routes := routes st @ r1\<rparr>, hist @ growth st r1)"
    "list_all2 (\<lambda>p r. buildRoute fp random_id now ss ts w (snd p) (fst p) = Inr r)
            (enumerate n (routeEntries fp ss ts w)) r1"
    using processWarehouse_routes by blast
  define st' where "st' = st\<lparr>routes := routes st @ r1\<rparr>"
  obtain r2 where r2: "forEach (processWarehouse fp random_id now ss ts) ws (n + length r1, st', hist @ growth st r1)
           = Inr (n + length r1 + length r2, st'\<lparr>routes := routes st' @ r2\<rparr>,
                  (hist @ growth st r1) @ growth st' r2)"
    "list_all2 (\<lambda>p r. buildRoute fp random_id now ss ts (fst (snd p)) (snd (snd p)) (fst p) = Inr r)
            (enumerate (n + length r1) (concat (map (\<lambda>w. map (Pair w) (routeEntries fp ss ts w)) ws))) r2"
    using Cons.IH by blast
  have len: "length (routeEntries fp ss ts w) = length r1"
    using list_all2_lengthD[OF r1(2)] by simp
  have a: "forEach (processWarehouse fp random_id now ss ts) (w # ws) (n, st, hist)
        = Inr (n + length (r1 @ r2), st\<lparr>routes := routes st @ (r1 @ r2)\<rparr>, hist @ growth st (r1 @ r2))"
    using r1(1) r2(1) by (simp add: add.assoc st'_def growth_append)
  have b1: "list_all2 (\<lambda>p r. buildRoute fp random_id now ss ts (fst (snd p)) (snd (snd p)) (fst p) = Inr r)
            (enumerate n (map (Pair w) (routeEntries fp ss ts w))) r1"
    unfolding enumerate_Pair using r1(2) by (simp add: list_all2_map1)
  have "list_all2 (\<lambda>p r. buildRoute fp random_id now ss ts (fst (snd p)) (snd (snd p)) (fst p) = Inr r)
            (enumerate n (map (Pair w) (routeEntries fp ss ts w))
             @ enumerate (n + length r1) (concat (map (\<lambda>w. map (Pair w) (routeEntries fp ss ts w)) ws)))
            (r1 @ r2)"
    using b1 r2(2) by (rule list_all2_appendI)
  then have b: "list_all2 (\<lambda>p r. buildRoute fp random_id now ss ts (fst (snd p)) (snd (snd p)) (fst p) = Inr r)
            (enumerate n (concat (map (\<lambda>w. map (Pair w) (routeEntries fp ss ts w)) (w # ws)))) (r1 @ r2)"
    by (simp add: enumerate_append_eq len)
  show ?case using a b by blast
qed

lemma cycle_routes:
  "\<exists>rs. cycle fp random_id now s
           = Inr (length rs, s\<lparr>routes := rs\<rparr>, s\<lparr>routes := []\<rparr> # growth (s\<lparr>routes := []\<rparr>) rs)
       \<and> list_all2 (\<lambda>p r. buildRoute fp random_id now (stores s) (trucks s) (fst (snd p)) (snd (snd p)) (fst p) = Inr r)
            (enumerate 0 (workList fp s)) rs"
proof -
  obtain rs where rs: "forEach (processWarehouse fp random_id now (stores s) (trucks s)) (warehouses s)
             (0, s\<lparr>routes := []\<rparr>, [s\<lparr>routes := []\<rparr>])
           = Inr (0 + length rs, s\<lparr>routes := []\<rparr>\<lparr>routes := routes (s\<lparr>routes := []\<rparr>) @ rs\<rparr>,
                  [s\<lparr>routes := []\<rparr>] @ growth (s\<lparr>routes := []\<rparr>) rs)"
    "list_all2 (\<lambda>p r. buildRoute fp random_id now (stores s) (trucks s) (fst (snd p)) (snd (snd p)) (fst p) = Inr r)
            (enumerate 0 (concat (map (\<lambda>w. map (Pair w) (routeEntries fp (stores s) (trucks s) w)) (warehouses s)))) rs"
    using warehouses_routes by blast
  have "cycle fp random_id now s
           = Inr (length rs, s\<lparr>routes := rs\<rparr>, s\<lparr>routes := []\<rparr> # growth (s\<lparr>routes := []\<rparr>) rs)"
    using rs(1) by (simp add: cycle_def set_state_def)
  then show ?thesis using rs(2) unfolding workList_def by blast
qed

lemma generateRoutes_routes:
  "\<exists>rs. generateRoutes fp random_id now s = Inr (s\<lparr>routes := rs\<rparr>)
       \<and> storeUpdates fp random_id now s = Inr (s\<lparr>routes := []\<rparr> # growth (s\<lparr>routes := []\<rparr>) rs)
       \<and> list_all2 (\<lambda>p r. buildRoute fp random_id now (stores s) (trucks s) (fst (snd p)) (snd (snd p)) (fst p) = Inr r)
            (enumerate 0 (workList fp s)) rs"
proof -
  obtain rs where rs: "cycle fp random_id now s
           = Inr (length rs, s\<lparr>routes := rs\<rparr>, s\<lparr>routes := []\<rparr> # growth (s\<lparr>routes := []\<rparr>) rs)"
    "list_all2 (\<lambda>p r. buildRoute fp random_id now (stores s) (trucks s) (fst (snd p)) (snd (snd p)) (fst p) = Inr r)
            (enumerate 0 (workList fp s)) rs"
    using cycle_routes by blast
  have "generateRoutes fp random_id now s = Inr (s\<lparr>routes := rs\<rparr>)"
    "storeUpdates fp random_id now s = Inr (s\<lparr>routes := []\<rparr> # growth (s\<lparr>routes := []\<rparr>) rs)"
    using rs(1) by (simp_all add: generateRoutes_def storeUpdates_def)
  then show ?thesis using rs(2) by blast
qed

lemma routes_update_inject: "s\<lparr>routes := a\<rparr> = s\<lparr>routes := b\<rparr> \<Longrightarrow> a = b"
  by (metis state.select_convs(4) state.surjective state.update_convs(4))

lemma storeUpdates_growth:
  assumes "generateRoutes fp random_id now s = Inr (s\<lparr>routes := rs\<rparr>)"
  shows "storeUpdates fp random_id now s = Inr (s\<lparr>routes := []\<rparr> # growth (s\<lparr>routes := []\<rparr>) rs)"
proof -
  obtain rs' where rs': "generateRoutes fp random_id now s = Inr (s\<lparr>routes := rs'\<rparr>)"
    "storeUpdates fp random_id now s = Inr (s\<lparr>routes := []\<rparr> # growth (s\<lparr>routes := []\<rparr>) rs')"
    using generateRoutes_routes[of fp random_id now s] by (elim exE conjE)
  have "s\<lparr>routes := rs'\<rparr> = s\<lparr>routes := rs\<rparr>" using rs'(1) assms by simp
  then have "rs' = rs" by (rule routes_update_inject)
  then show ?thesis using rs'(2) by simp
qed

lemma generateRoutes_nth:
  "\<exists>rs. generateRoutes fp random_id now s = Inr (s\<lparr>routes := rs\<rparr>)
     \<and> length rs = length (workList fp s)
     \<and> (\<forall>i < length rs.
           buildRoute fp random_id now (stores s) (trucks s) (fst (workList fp s ! i)) (snd (workList fp s ! i)) i
           = Inr (rs ! i))"
proof -
  obtain rs where rs: "generateRoutes fp random_id now s = Inr (s\<lparr>routes := rs\<rparr>)"
    "list_all2 (\<lambda>p r. buildRoute fp random_id now (stores s) (trucks s) (fst (snd p)) (snd (snd p)) (fst p) = Inr r)
            (enumerate 0 (workList fp s)) rs"
    using generateRoutes_routes by blast
  have len: "length rs = length (workList fp s)"
    using list_all2_lengthD[OF rs(2)] by simp
  have "buildRoute fp random_id now (stores s) (trucks s) (fst (workList fp s ! i)) (snd (workList fp s ! i)) i
           = Inr (rs ! i)" if "i < length rs" for i
    using list_all2_nthD2[OF rs(2) that] that len by (simp add: nth_enumerate_eq)
  then show ?thesis using rs(1) len by blast
qed

subsection \<open>Every destination is served from every depot\<close>

lemma workList_routes [simp]: "workList fp (s\<lparr>routes := rs\<rparr>) = workList fp s"
  by (simp add: workList_def)

lemma workList_mem:
  "(w, e) \<in> set (workList fp s) \<longleftrightarrow> w \<in> set (warehouses s) \<and> e \<in> set (routeEntries fp (stores s) (trucks s) w)"
  by (auto simp: workList_def)

lemma routeEntries_mem:
  "e \<in> set (routeEntries fp ss ts w) \<longleftrightarrow>
     warehouseTrucks w ts \<noteq> []
     \<and> (\<exists>ob. truckAssignments fp w ss ts = Inr ob \<and> e \<in> set (own_props ob) \<and> snd e \<noteq> [])"
  by (cases "truckAssignments fp w ss ts") (auto simp: routeEntries_def set_Object_entries)

lemma generateRoutes_set:
  "\<exists>rs. generateRoutes fp random_id now s = Inr (s\<lparr>routes := rs\<rparr>)
     \<and> length rs = length (workList fp s)
     \<and> (\<forall>r \<in> set rs. \<exists>w e n. (w, e) \<in> set (workList fp s)
            \<and> buildRoute fp random_id now (stores s) (trucks s) w e n = Inr r)
     \<and> (\<forall>p \<in> set (workList fp s). \<exists>r n. r \<in> set rs
            \<and> buildRoute fp random_id now (stores s) (trucks s) (fst p) (snd p) n = Inr r)"
proof -
  obtain rs where rs: "generateRoutes fp random_id now s = Inr (s\<lparr>routes := rs\<rparr>)"
    "length rs = length (workList fp s)"
    "\<forall>i < length rs.
           buildRoute fp random_id now (stores s) (trucks s) (fst (workList fp s ! i)) (snd (workList fp s ! i)) i
           = Inr (rs ! i)"
    using generateRoutes_nth[of fp random_id now s] by blast
  have a: "\<exists>w e n. (w, e) \<in> set (workList fp s)
            \<and> buildRoute fp random_id now (stores s) (trucks s) w e n = Inr r" if "r \<in> set rs" for r
  proof -
    from that obtain i where i: "i < length rs" "r = rs ! i" by (metis in_set_conv_nth)
    have "(fst (workList fp s ! i), snd (workList fp s ! i)) \<in> set (workList fp s)"
      using i(1) rs(2) by simp
    then show ?thesis using rs(3) i by blast
  qed
  have b: "\<exists>r n. r \<in> set rs
            \<and> buildRoute fp random_id now (stores s) (trucks s) (fst p) (snd p) n = Inr r"
    if "p \<in> set (workList fp s)" for p
  proof -
    from that obtain i where i: "i < length (workList fp s)" "workList fp s ! i = p"
      by (metis in_set_conv_nth)
    have "buildRoute fp random_id now (stores s) (trucks s) (fst p) (snd p) i = Inr (rs ! i)"
      using rs(3) i rs(2) by auto
    moreover have "rs ! i \<in> set rs" using i(1) rs(2) by simp
    ultimately show ?thesis by blast
  qed
  show ?thesis using rs(1,2) a b by blast
qed


subsection \<open>Repeated cycles and deleted depots\<close>

text \<open>
  C7. For fixed depots, destinations and vehicles, two successive cycles, whatever
  identifiers and timestamps each of them draws, produce route collections of the same
  length that agree position by position on depot, vehicle, store sequence, total
  distance and estimated duration.
\<close>

theorem regeneration_same_content:
  "\<exists>rs1 rs2. generateRoutes fp ids1 now1 s = Inr (s\<lparr>routes := rs1\<rparr>)
     \<and> generateRoutes fp ids2 now2 (s\<lparr>routes := rs1\<rparr>) = Inr (s\<lparr>routes := rs2\<rparr>)
     \<and> length rs2 = length rs1
     \<and> map content rs2 = map content rs1"
proof -
  obtain rs1 where rs1: "generateRoutes fp ids1 now1 s = Inr (s\<lparr>routes := rs1\<rparr>)"
    "length rs1 = length (workList fp s)"
    "\<forall>i < length rs1.
           buildRoute fp ids1 now1 (stores s) (trucks s) (fst (workList fp s ! i)) (snd (workList fp s ! i)) i
           = Inr (rs1 ! i)"
    using generateRoutes_nth[of fp ids1 now1 s] by blast
  obtain rs2 where rs2: "generateRoutes fp ids2 now2 (s\<lparr>routes := rs1\<rparr>) = Inr (s\<lparr>routes := rs1\<rparr>\<lparr>routes := rs2\<rparr>)"
    "length rs2 = length (workList fp (s\<lparr>routes := rs1\<rparr>))"
    "\<forall>i < length rs2.
           buildRoute fp ids2 now2 (stores (s\<lparr>routes := rs1\<rparr>)) (trucks (s\<lparr>routes := rs1\<rparr>))
              (fst (workList fp (s\<lparr>routes := rs1\<rparr>) ! i)) (snd (workList fp (s\<lparr>routes := rs1\<rparr>) ! i)) i
           = Inr (rs2 ! i)"
    using generateRoutes_nth[of fp ids2 now2 "s\<lparr>routes := rs1\<rparr>"] by blast
  have len: "length rs2 = length rs1" using rs1(2) rs2(2) by simp
  have "content (rs2 ! i) = content (rs1 ! i)" if "i < length rs1" for i
  proof -
    have 1: "buildRoute fp ids1 now1 (stores s) (trucks s) (fst (workList fp s ! i)) (snd (workList fp s ! i)) i
           = Inr (rs1 ! i)" using rs1(3) that by blast
    have 2: "buildRoute fp ids2 now2 (stores s) (trucks s) (fst (workList fp s ! i)) (snd (workList fp s ! i)) i
           = Inr (rs2 ! i)" using rs2(3) that len by simp
    show ?thesis by (rule buildRoute_content[OF 1 2])
  qed
  then have "map content rs2 = map content rs1"
    using len by (simp add: list_eq_iff_nth_eq)
  then show ?thesis using rs1(1) rs2(1) len by auto
qed

lemma routeEntries_truck:
  assumes "e \<in> set (routeEntries fp ss ts w)"
  shows "\<exists>t \<in> set ts. t_id t = fst e \<and> warehouseId t = w_id w"
proof -
  from assms have ne: "warehouseTrucks w ts \<noteq> []"
    and ex: "\<exists>ob. truckAssignments fp w ss ts = Inr ob \<and> e \<in> set (own_props ob) \<and> snd e \<noteq> []"
    unfolding routeEntries_mem by simp_all
  then obtain ob where ob: "truckAssignments fp w ss ts = Inr ob" "e \<in> set (own_props ob)" by blast
  have "fst ` set (own_props ob) = t_id ` set (warehouseTrucks w ts) - {''__proto__''}"
    by (rule truckAssignments_props(2)[OF ne ob(1)])
  then have "fst e \<in> t_id ` set (warehouseTrucks w ts)" using ob(2) by (metis DiffD1 imageI)
  then obtain t where "t \<in> set (warehouseTrucks w ts)" "t_id t = fst e" by auto
  then have "t \<in> set ts \<and> t_id t = fst e \<and> warehouseId t = w_id w"
    by (simp add: warehouseTrucks_def)
  then show ?thesis by blast
qed

text \<open>
  C10. \<open>deleteWarehouse\<close> changes the warehouse collection only: destinations, vehicles
  and routes stay as they are, so the vehicles of the deleted depot remain. A cycle that
  follows produces no route of the deleted depot, and, vehicle identifiers being unique,
  no route for any of its vehicles.
\<close>

theorem deleteWarehouse_frame:
  "stores (deleteWarehouse i s) = stores s
   \<and> trucks (deleteWarehouse i s) = trucks s
   \<and> routes (deleteWarehouse i s) = routes s
   \<and> warehouses (deleteWarehouse i s) = filter (\<lambda>w. w_id w \<noteq> i) (warehouses s)
   \<and> i \<notin> w_id ` set (warehouses (deleteWarehouse i s))
   \<and> (\<exists>rs. generateRoutes fp random_id now (deleteWarehouse i s) = Inr ((deleteWarehouse i s)\<lparr>routes := rs\<rparr>)
         \<and> i \<notin> r_warehouseId ` set rs
         \<and> (distinct (map t_id (trucks s)) \<longrightarrow>
              (\<forall>t \<in> set (trucks s). warehouseId t = i \<longrightarrow> t_id t \<notin> truckId ` set rs)))"
proof -
  define s' where "s' = deleteWarehouse i s"
  have frame: "stores s' = stores s" "trucks s' = trucks s" "routes s' = routes s"
    "warehouses s' = filter (\<lambda>w. w_id w \<noteq> i) (warehouses s)"
    by (simp_all add: s'_def deleteWarehouse_def)
  obtain rs where rs: "generateRoutes fp random_id now s' = Inr (s'\<lparr>routes := rs\<rparr>)"
    "\<forall>r \<in> set rs. \<exists>w e n. (w, e) \<in> set (workList fp s')
            \<and> buildRoute fp random_id now (stores s') (trucks s') w e n = Inr r"
    using generateRoutes_set[of fp random_id now s'] by blast
  have origin: "\<exists>(w::warehouse) (t::truck). w_id w \<noteq> i \<and> r_warehouseId r = w_id w \<and> t \<in> set (trucks s)
                  \<and> t_id t = truckId r \<and> warehouseId t = w_id w" if "r \<in> set rs" for r
  proof -
    from rs(2) that obtain w e n where we: "(w, e) \<in> set (workList fp s')"
      "buildRoute fp random_id now (stores s') (trucks s') w e n = Inr r" by blast
    have w: "w \<in> set (warehouses s')" and e: "e \<in> set (routeEntries fp (stores s') (trucks s') w)"
      using we(1) by (simp_all add: workList_mem)
    have 1: "w_id w \<noteq> i" using w frame(4) by simp
    obtain t where t: "t \<in> set (trucks s')" "t_id t = fst e" "warehouseId t = w_id w"
      using routeEntries_truck[OF e] by blast
    have f: "r_warehouseId r = w_id w" "truckId r = fst e"
      using buildRoute_fields[OF we(2)] by simp_all
    have "w_id w \<noteq> i \<and> r_warehouseId r = w_id w \<and> t \<in> set (trucks s)
                  \<and> t_id t = truckId r \<and> warehouseId t = w_id w"
      using 1 t f frame(2) by simp
    then show ?thesis by blast
  qed
  have a: "i \<notin> r_warehouseId ` set rs"
    using origin by force
  have b: "\<forall>t \<in> set (trucks s). warehouseId t = i \<longrightarrow> t_id t \<notin> truckId ` set rs"
    if d: "distinct (map t_id (trucks s))"
  proof (intro ballI impI notI)
    fix t assume t: "t \<in> set (trucks s)" "warehouseId t = i" "t_id t \<in> truckId ` set rs"
    then obtain r where r: "r \<in> set rs" "truckId r = t_id t" by auto
    from origin[OF r(1)] obtain w :: warehouse and t' :: truck
      where o: "w_id w \<noteq> i" "t' \<in> set (trucks s)"
      "t_id t' = truckId r" "warehouseId t' = w_id w" by blast
    have "t' = t" using d t(1) o(2,3) r(2) by (metis distinct_map inj_onD)
    then show False using o(1,4) t(2) by simp
  qed
  have gone: "i \<notin> w_id ` set (warehouses s')" unfolding frame(4) by auto
  show ?thesis using frame gone rs(1) a b unfolding s'_def by blast
qed

section \<open>Properties of the route actions\<close>

text \<open>
  C8 as the program has it. \<open>updateRoute\<close> and \<open>deleteRoute\<close> return nothing. They change
  the route collection only: \<open>updateRoute\<close> overwrites the given fields of every route with
  the identifier, \<open>deleteRoute\<close> removes every route with the identifier. When no route
  has the identifier, the state stays as it is, and nothing tells the caller so.
\<close>

theorem update_delete_silent:
  "updateRoute i d s
     = ((), s\<lparr>routes := map (\<lambda>r. if r_id r = i then spread r d else r) (routes s)\<rparr>)
   \<and> deleteRoute i s = ((), s\<lparr>routes := filter (\<lambda>r. r_id r \<noteq> i) (routes s)\<rparr>)
   \<and> i \<notin> r_id ` set (routes (snd (deleteRoute i s)))
   \<and> (i \<notin> r_id ` set (routes s) \<longrightarrow> updateRoute i d s = ((), s) \<and> deleteRoute i s = ((), s))"
proof -
  have "map (\<lambda>r. if r_id r = i then spread r d else r) (routes s) = routes s"
    "filter (\<lambda>r. r_id r \<noteq> i) (routes s) = routes s"
    if "i \<notin> r_id ` set (routes s)"
  proof -
    have ne: "r_id r \<noteq> i" if "r \<in> set (routes s)" for r
      using that \<open>i \<notin> r_id ` set (routes s)\<close> by (metis imageI)
    show "map (\<lambda>r. if r_id r = i then spread r d else r) (routes s) = routes s"
      by (rule map_idI) (simp add: ne)
    show "filter (\<lambda>r. r_id r \<noteq> i) (routes s) = routes s"
      by (simp add: filter_id_conv ne)
  qed
  then show ?thesis by (auto simp: updateRoute_def deleteRoute_def)
qed

lemma spread_id: "r_id (spread r d) = (case p_id d of None \<Rightarrow> r_id r | Some v \<Rightarrow> v)"
  by (simp add: spread_def)

lemma distinct_rename:
  assumes "distinct (map g xs)" "v \<notin> g ` set xs"
  shows "distinct (map (\<lambda>x. if g x = i then v else g x) xs)"
  using assms by (induction xs) (auto split: if_splits simp: image_iff)

lemma generated_ids:
  "\<exists>rs. generateRoutes fp random_id now s = Inr (s\<lparr>routes := rs\<rparr>)
     \<and> length rs = length (workList fp s)
     \<and> map r_id rs = map random_id [0..<length rs]"
proof -
  obtain rs where rs: "generateRoutes fp random_id now s = Inr (s\<lparr>routes := rs\<rparr>)"
    "length rs = length (workList fp s)"
    "\<forall>i < length rs.
           buildRoute fp random_id now (stores s) (trucks s) (fst (workList fp s ! i)) (snd (workList fp s ! i)) i
           = Inr (rs ! i)"
    using generateRoutes_nth[of fp random_id now s] by blast
  have id: "r_id (rs ! i) = random_id i" if "i < length rs" for i
    using buildRoute_fields(1)[OF rs(3)[rule_format, OF that]] .
  have "map r_id rs = map random_id [0..<length rs]"
  proof (rule nth_equalityI)
    show "length (map r_id rs) = length (map random_id [0..<length rs])" by simp
    fix i assume "i < length (map r_id rs)"
    then show "map r_id rs ! i = map random_id [0..<length rs] ! i"
      by (simp add: id)
  qed
  with rs(1,2) show ?thesis by (intro exI[of _ rs] conjI)
qed

text \<open>
  C9 as the program has it. Pairwise distinct route identifiers are preserved by
  \<open>deleteRoute\<close>; by \<open>updateRoute\<close> when the partial fields carry no identifier, the
  identifier itself, or one that no route has; by \<open>addRoute\<close> when the identifier drawn
  is not in the collection; and a cycle of \<open>generateRoutes\<close> leaves distinct identifiers
  when the identifiers it draws are pairwise distinct.
\<close>

theorem distinct_ids_preserved:
  assumes "distinct (map r_id (routes s))"
  shows "distinct (map r_id (routes (snd (deleteRoute i s))))
       \<and> ((case p_id d of None \<Rightarrow> True | Some v \<Rightarrow> v = i \<or> v \<notin> r_id ` set (routes s)) \<longrightarrow>
            distinct (map r_id (routes (snd (updateRoute i d s)))))
       \<and> (drawn \<notin> r_id ` set (routes s) \<longrightarrow> distinct (map r_id (routes (addRoute drawn r s))))
       \<and> (inj_on random_id {0..<length (workList fp s)} \<longrightarrow>
            (\<exists>rs. generateRoutes fp random_id now s = Inr (s\<lparr>routes := rs\<rparr>) \<and> distinct (map r_id rs)))"
proof (intro conjI impI)
  show "distinct (map r_id (routes (snd (deleteRoute i s))))"
    using assms by (simp add: deleteRoute_def distinct_map_filter)
next
  assume c: "case p_id d of None \<Rightarrow> True | Some v \<Rightarrow> v = i \<or> v \<notin> r_id ` set (routes s)"
  have ids: "map r_id (routes (snd (updateRoute i d s)))
        = map (\<lambda>r. if r_id r = i then (case p_id d of None \<Rightarrow> r_id r | Some v \<Rightarrow> v) else r_id r)
            (routes s)"
    by (simp add: updateRoute_def comp_def spread_id if_distrib cong: if_cong)
  show "distinct (map r_id (routes (snd (updateRoute i d s))))"
  proof (cases "p_id d")
    case None
    then have "map r_id (routes (snd (updateRoute i d s))) = map r_id (routes s)"
      unfolding ids by simp
    then show ?thesis using assms by simp
  next
    case (Some v)
    show ?thesis
    proof (cases "v = i")
      case True
      then have "map r_id (routes (snd (updateRoute i d s))) = map r_id (routes s)"
        unfolding ids using Some by (auto intro: map_cong)
      then show ?thesis using assms by simp
    next
      case False
      then have "v \<notin> r_id ` set (routes s)" using c Some by simp
      then show ?thesis unfolding ids Some option.case by (rule distinct_rename[OF assms])
    qed
  qed
next
  assume "drawn \<notin> r_id ` set (routes s)"
  then show "distinct (map r_id (routes (addRoute drawn r s)))"
    using assms by (auto simp: addRoute_def)
next
  assume inj: "inj_on random_id {0..<length (workList fp s)}"
  obtain rs where rs: "generateRoutes fp random_id now s = Inr (s\<lparr>routes := rs\<rparr>)"
    "length rs = length (workList fp s)" "map r_id rs = map random_id [0..<length rs]"
    using generated_ids[of fp random_id now s] by blast
  have "distinct (map random_id [0..<length rs])"
    using inj rs(2) by (simp add: distinct_map)
  then show "\<exists>rs. generateRoutes fp random_id now s = Inr (s\<lparr>routes := rs\<rparr>) \<and> distinct (map r_id rs)"
    using rs(1,3) by auto
qed

section \<open>The route collection after a cycle\<close>

lemma generateRoutes_ignores_routes:
  "generateRoutes fp random_id now (s\<lparr>routes := old\<rparr>) = generateRoutes fp random_id now s"
proof -
  have "cycle fp random_id now (s\<lparr>routes := old\<rparr>) = cycle fp random_id now s"
    by (simp add: cycle_def set_state_def)
  then show ?thesis by (simp add: generateRoutes_def)
qed

lemma assignedTo_empty_roster:
  assumes "warehouseTrucks w ts = []"
  shows "assignedTo fp w ss ts k = []"
proof (cases "sortedStores fp w ss")
  case Nil
  then show ?thesis
    using assms by (simp add: assignedTo_def truckAssignments_def initAssignments_def empty_object_def)
next
  case (Cons x xs)
  then have "truckAssignments fp w ss ts = Inl TypeError"
    using assms by (simp add: truckAssignments_def assignStore_def at_index_def)
  then show ?thesis by (simp add: assignedTo_def)
qed

lemma routeEntries_assignedTo:
  "e \<in> set (routeEntries fp ss ts w) \<longleftrightarrow> snd e \<noteq> [] \<and> assignedTo fp w ss ts (fst e) = snd e"
proof (cases "warehouseTrucks w ts = []")
  case True
  then show ?thesis
    using assignedTo_empty_roster[OF True] by (auto simp: routeEntries_def)
next
  case False
  obtain ob where ob1: "truckAssignments fp w ss ts = Inr ob"
    using truckAssignments_total[OF False] by blast
  note ob = ob1 truckAssignments_props(1)[OF False ob1]
  have "e \<in> set (own_props ob) \<longleftrightarrow> map_of (own_props ob) (fst e) = Some (snd e)"
    using ob(2) by (metis map_of_SomeD map_of_is_SomeI prod.collapse)
  moreover have "e \<in> set (routeEntries fp ss ts w) \<longleftrightarrow> e \<in> set (own_props ob) \<and> snd e \<noteq> []"
    unfolding routeEntries_mem using False ob(1) by auto
  moreover have "assignedTo fp w ss ts (fst e)
        = (case map_of (own_props ob) (fst e) of None \<Rightarrow> [] | Some ids \<Rightarrow> ids)"
    by (simp add: assignedTo_def ob(1))
  ultimately show ?thesis by (auto split: option.splits)
qed

lemma distinct_routeEntries: "distinct (map fst (routeEntries fp ss ts w))"
proof (cases "warehouseTrucks w ts = []")
  case True
  then show ?thesis by (simp add: routeEntries_def)
next
  case False
  obtain ob where ob1: "truckAssignments fp w ss ts = Inr ob"
    using truckAssignments_total[OF False] by blast
  note ob = ob1 truckAssignments_props(1)[OF False ob1]
  have "distinct (map fst (Object_entries ob))"
    using ob(2) by (rule distinct_Object_entries)
  then show ?thesis using False ob(1) by (simp add: routeEntries_def distinct_map_filter)
qed

lemma distinct_work_pairs:
  assumes "distinct (map w_id ws)"
  shows "distinct (map (\<lambda>p. (w_id (fst p), fst (snd p)))
           (concat (map (\<lambda>w. map (Pair w) (routeEntries fp ss ts w)) ws)))"
  using assms
proof (induction ws)
  case Nil
  then show ?case by simp
next
  case (Cons w ws)
  have 1: "distinct (map (\<lambda>e. (w_id w, fst e)) (routeEntries fp ss ts w))"
    using distinct_routeEntries[of fp ss ts w] by (simp add: distinct_map inj_on_def)
  have 2: "distinct (map (\<lambda>p. (w_id (fst p), fst (snd p)))
           (concat (map (\<lambda>w. map (Pair w) (routeEntries fp ss ts w)) ws)))"
    using Cons by simp
  have 3: "fst q \<in> w_id ` set ws"
    if "q \<in> set (map (\<lambda>p. (w_id (fst p), fst (snd p)))
           (concat (map (\<lambda>w. map (Pair w) (routeEntries fp ss ts w)) ws)))" for q
    using that by auto
  have 4: "w_id w \<notin> w_id ` set ws" using Cons.prems by simp
  have "set (map (\<lambda>e. (w_id w, fst e)) (routeEntries fp ss ts w))
        \<inter> set (map (\<lambda>p. (w_id (fst p), fst (snd p)))
           (concat (map (\<lambda>w. map (Pair w) (routeEntries fp ss ts w)) ws))) = {}"
    using 3 4 by fastforce
  then show ?case using 1 2 by (simp add: comp_def)
qed

lemma count_distinct_map:
  assumes "distinct (map f xs)"
  shows "length (filter (\<lambda>x. f x = a) xs) = (if a \<in> f ` set xs then 1 else 0)"
  using assms by (induction xs) (auto simp: image_iff)

lemma cycle_by_key:
  assumes "distinct (map w_id (warehouses s))"
  shows "\<exists>rs. (\<forall>old. generateRoutes fp random_id now (s\<lparr>routes := old\<rparr>) = Inr (s\<lparr>routes := rs\<rparr>))
       \<and> map r_id rs = map random_id [0..<length rs]
       \<and> map created rs = map now [0..<length rs]
       \<and> (\<forall>w \<in> set (warehouses s). \<forall>k.
             length (filter (\<lambda>r. r_warehouseId r = w_id w \<and> truckId r = k) rs)
             = (if assignedTo fp w (stores s) (trucks s) k \<noteq> [] then 1 else 0))
       \<and> (\<forall>r \<in> set rs. \<exists>w \<in> set (warehouses s).
             r_warehouseId r = w_id w \<and> r_stores r \<noteq> []
             \<and> r_stores r = assignedTo fp w (stores s) (trucks s) (truckId r))"
proof -
  obtain rs where rs: "generateRoutes fp random_id now s = Inr (s\<lparr>routes := rs\<rparr>)"
    "length rs = length (workList fp s)"
    "\<forall>i < length rs.
           buildRoute fp random_id now (stores s) (trucks s) (fst (workList fp s ! i)) (snd (workList fp s ! i)) i
           = Inr (rs ! i)"
    using generateRoutes_nth[of fp random_id now s] by blast
  note f = buildRoute_fields[OF rs(3)[rule_format]]
  have a: "\<forall>old. generateRoutes fp random_id now (s\<lparr>routes := old\<rparr>) = Inr (s\<lparr>routes := rs\<rparr>)"
    unfolding generateRoutes_ignores_routes using rs(1) by simp
  have b: "map r_id rs = map random_id [0..<length rs]"
    by (rule nth_equalityI) (simp_all add: f(1))
  have c: "map created rs = map now [0..<length rs]"
    by (rule nth_equalityI) (simp_all add: f(2))
  have pairs: "map (\<lambda>r. (r_warehouseId r, truckId r)) rs
        = map (\<lambda>p. (w_id (fst p), fst (snd p))) (workList fp s)"
    by (rule nth_equalityI) (simp_all add: rs(2) f(3,4))
  have dist: "distinct (map (\<lambda>r. (r_warehouseId r, truckId r)) rs)"
    unfolding pairs workList_def by (rule distinct_work_pairs[OF assms])
  have e: "\<forall>r \<in> set rs. \<exists>w \<in> set (warehouses s).
             r_warehouseId r = w_id w \<and> r_stores r \<noteq> []
             \<and> r_stores r = assignedTo fp w (stores s) (trucks s) (truckId r)"
  proof
    fix r assume "r \<in> set rs"
    then obtain i where i: "i < length rs" "r = rs ! i" by (metis in_set_conv_nth)
    define w where "w = fst (workList fp s ! i)"
    define en where "en = snd (workList fp s ! i)"
    have "(w, en) \<in> set (workList fp s)" using i(1) rs(2) by (simp add: w_def en_def)
    then have w: "w \<in> set (warehouses s)"
      and en: "snd en \<noteq> []" "assignedTo fp w (stores s) (trucks s) (fst en) = snd en"
      by (simp_all add: workList_mem routeEntries_assignedTo)
    have "r_warehouseId r = w_id w" "truckId r = fst en" "r_stores r = snd en"
      using f(3,4,5)[OF i(1)] by (simp_all add: i(2) w_def en_def)
    then have "r_warehouseId r = w_id w \<and> r_stores r \<noteq> []
             \<and> r_stores r = assignedTo fp w (stores s) (trucks s) (truckId r)"
      using en by simp
    then show "\<exists>w \<in> set (warehouses s).
             r_warehouseId r = w_id w \<and> r_stores r \<noteq> []
             \<and> r_stores r = assignedTo fp w (stores s) (trucks s) (truckId r)"
      using w by blast
  qed
  have mem: "(w_id w, k) \<in> (\<lambda>r. (r_warehouseId r, truckId r)) ` set rs
             \<longleftrightarrow> assignedTo fp w (stores s) (trucks s) k \<noteq> []"
    if w: "w \<in> set (warehouses s)" for w k
  proof
    assume "(w_id w, k) \<in> (\<lambda>r. (r_warehouseId r, truckId r)) ` set rs"
    then obtain r where r: "r \<in> set rs" "r_warehouseId r = w_id w" "truckId r = k"
      by auto
    from e r(1) obtain w' where w': "w' \<in> set (warehouses s)" "r_warehouseId r = w_id w'"
      "r_stores r \<noteq> []" "r_stores r = assignedTo fp w' (stores s) (trucks s) (truckId r)"
      by blast
    have "w_id w' = w_id w" using w'(2) r(2) by simp
    then have "w' = w" using assms w w'(1) by (metis distinct_map inj_onD)
    then show "assignedTo fp w (stores s) (trucks s) k \<noteq> []"
      using w'(3,4) r(3) by simp
  next
    assume ne: "assignedTo fp w (stores s) (trucks s) k \<noteq> []"
    define en where "en = (k, assignedTo fp w (stores s) (trucks s) k)"
    have "en \<in> set (routeEntries fp (stores s) (trucks s) w)"
      unfolding routeEntries_assignedTo using ne by (simp add: en_def)
    then have "(w, en) \<in> set (workList fp s)" using w by (simp add: workList_mem)
    then obtain i where i: "i < length (workList fp s)" "workList fp s ! i = (w, en)"
      by (metis in_set_conv_nth)
    have il: "i < length rs" using i(1) rs(2) by simp
    have "r_warehouseId (rs ! i) = w_id w" "truckId (rs ! i) = k"
      using f(3,4)[OF il] by (simp_all add: i(2) en_def)
    then have eq: "(w_id w, k) = (\<lambda>r. (r_warehouseId r, truckId r)) (rs ! i)" by simp
    have "rs ! i \<in> set rs" using il by simp
    with eq show "(w_id w, k) \<in> (\<lambda>r. (r_warehouseId r, truckId r)) ` set rs"
      by (rule image_eqI)
  qed
  have d: "\<forall>w \<in> set (warehouses s). \<forall>k.
             length (filter (\<lambda>r. r_warehouseId r = w_id w \<and> truckId r = k) rs)
             = (if assignedTo fp w (stores s) (trucks s) k \<noteq> [] then 1 else 0)"
  proof (intro ballI allI)
    fix w k assume w: "w \<in> set (warehouses s)"
    have "length (filter (\<lambda>r. (r_warehouseId r, truckId r) = (w_id w, k)) rs)
          = (if (w_id w, k) \<in> (\<lambda>r. (r_warehouseId r, truckId r)) ` set rs then 1 else 0)"
      by (rule count_distinct_map[OF dist])
    then show "length (filter (\<lambda>r. r_warehouseId r = w_id w \<and> truckId r = k) rs)
             = (if assignedTo fp w (stores s) (trucks s) k \<noteq> [] then 1 else 0)"
      unfolding mem[OF w] by simp
  qed
  show ?thesis by (intro exI[of _ rs] conjI a b c d e)
qed


lemma assignedTo_key:
  assumes "assignedTo fp w ss ts k \<noteq> []"
  shows "k \<in> t_id ` set (warehouseTrucks w ts)"
proof (cases "warehouseTrucks w ts = []")
  case True
  then show ?thesis using assms assignedTo_empty_roster by blast
next
  case False
  obtain ob where ob: "truckAssignments fp w ss ts = Inr ob"
    using truckAssignments_total[OF False] by blast
  have keys: "fst ` set (own_props ob) = t_id ` set (warehouseTrucks w ts) - {''__proto__''}"
    by (rule truckAssignments_props(2)[OF False ob])
  obtain ids where "map_of (own_props ob) k = Some ids"
    using assms by (auto simp: assignedTo_def ob split: option.splits)
  then have "(k, ids) \<in> set (own_props ob)" by (rule map_of_SomeD)
  then have "k \<in> fst ` set (own_props ob)" by (metis fst_conv imageI)
  then show ?thesis unfolding keys by simp
qed

lemma growth_prefixes:
  "s\<lparr>routes := []\<rparr> # growth (s\<lparr>routes := []\<rparr>) rs
   = map (\<lambda>k. s\<lparr>routes := take k rs\<rparr>) [0..<Suc (length rs)]"
proof -
  have "map (\<lambda>k. s\<lparr>routes := take k rs\<rparr>) [0..<Suc (length rs)]
        = s\<lparr>routes := []\<rparr> # map (\<lambda>k. s\<lparr>routes := take k rs\<rparr>) (map Suc [0..<length rs])"
    by (simp add: upt_conv_Cons map_Suc_upt del: upt_Suc)
  then show ?thesis by (simp add: growth_take)
qed

text \<open>
  C6 as the program has it. A cycle replaces the whole route collection, though not in one
  step: it stores the state with the empty collection and then, route by route, the state
  with one more route, so that the states stored are the prefixes of the new collection
  and none holds a route from before. Whatever routes the state held, the collection
  afterwards consists of the routes built in this cycle, each with the identifier and
  timestamp drawn for it: exactly one for each depot and each vehicle of its roster that
  received at least one destination, none for a vehicle that received none or that belongs
  to no depot, and every route is such a route. Depot and vehicle identifiers are unique,
  as the data model says, and no vehicle identifier is \<open>__proto__\<close>.
\<close>

theorem cycle_replaces_routes:
  assumes "distinct (map w_id (warehouses s))"
    and "distinct (map t_id (trucks s))"
    and "''__proto__'' \<notin> t_id ` set (trucks s)"
  shows "\<exists>rs. (\<forall>old. generateRoutes fp random_id now (s\<lparr>routes := old\<rparr>) = Inr (s\<lparr>routes := rs\<rparr>)
                 \<and> storeUpdates fp random_id now (s\<lparr>routes := old\<rparr>)
                     = Inr (map (\<lambda>k. s\<lparr>routes := take k rs\<rparr>) [0..<Suc (length rs)]))
       \<and> map r_id rs = map random_id [0..<length rs]
       \<and> map created rs = map now [0..<length rs]
       \<and> (\<forall>w \<in> set (warehouses s). \<forall>j < length (warehouseTrucks w (trucks s)).
             length (filter (\<lambda>r. r_warehouseId r = w_id w
                               \<and> truckId r = t_id (warehouseTrucks w (trucks s) ! j)) rs)
             = (if picks (length (warehouseTrucks w (trucks s))) j (sortedStores fp w (stores s)) \<noteq> []
                then 1 else 0))
       \<and> (\<forall>t \<in> set (trucks s). warehouseId t \<notin> w_id ` set (warehouses s) \<longrightarrow>
             t_id t \<notin> truckId ` set rs)
       \<and> (\<forall>r \<in> set rs. \<exists>w \<in> set (warehouses s). \<exists>j < length (warehouseTrucks w (trucks s)).
             r_warehouseId r = w_id w
             \<and> truckId r = t_id (warehouseTrucks w (trucks s) ! j)
             \<and> r_stores r \<noteq> []
             \<and> picks (length (warehouseTrucks w (trucks s))) j (sortedStores fp w (stores s)) \<noteq> [])"
proof -
  obtain rs where rs:
    "\<forall>old. generateRoutes fp random_id now (s\<lparr>routes := old\<rparr>) = Inr (s\<lparr>routes := rs\<rparr>)"
    "map r_id rs = map random_id [0..<length rs]"
    "map created rs = map now [0..<length rs]"
    "\<forall>w \<in> set (warehouses s). \<forall>k.
             length (filter (\<lambda>r. r_warehouseId r = w_id w \<and> truckId r = k) rs)
             = (if assignedTo fp w (stores s) (trucks s) k \<noteq> [] then 1 else 0)"
    "\<forall>r \<in> set rs. \<exists>w \<in> set (warehouses s).
             r_warehouseId r = w_id w \<and> r_stores r \<noteq> []
             \<and> r_stores r = assignedTo fp w (stores s) (trucks s) (truckId r)"
    using cycle_by_key[OF assms(1), of fp random_id now] by (elim exE conjE)
  have roster: "distinct (map t_id (warehouseTrucks w (trucks s)))"
    "''__proto__'' \<notin> t_id ` set (warehouseTrucks w (trucks s))"
    "set (warehouseTrucks w (trucks s)) \<subseteq> set (trucks s)" for w
    using assms(2,3) by (auto simp: warehouseTrucks_def distinct_map_filter)
  have pk: "assignedTo fp w (stores s) (trucks s) (t_id (warehouseTrucks w (trucks s) ! j))
            = map (\<lambda>p. s_id (fst p))
                (picks (length (warehouseTrucks w (trucks s))) j (sortedStores fp w (stores s)))"
    if "j < length (warehouseTrucks w (trucks s))" for w j
    by (rule assignedTo_distinct[OF _ roster(1,2) that]) (use that in auto)
  have a: "generateRoutes fp random_id now (s\<lparr>routes := old\<rparr>) = Inr (s\<lparr>routes := rs\<rparr>)
                 \<and> storeUpdates fp random_id now (s\<lparr>routes := old\<rparr>)
                     = Inr (map (\<lambda>k. s\<lparr>routes := take k rs\<rparr>) [0..<Suc (length rs)])" for old
  proof -
    have g: "generateRoutes fp random_id now (s\<lparr>routes := old\<rparr>)
             = Inr (s\<lparr>routes := old\<rparr>\<lparr>routes := rs\<rparr>)"
      using rs(1) by simp
    have "storeUpdates fp random_id now (s\<lparr>routes := old\<rparr>)
          = Inr (s\<lparr>routes := old\<rparr>\<lparr>routes := []\<rparr> # growth (s\<lparr>routes := old\<rparr>\<lparr>routes := []\<rparr>) rs)"
      by (rule storeUpdates_growth[OF g])
    then show ?thesis using rs(1) growth_prefixes[of s rs] by simp
  qed
  have d: "\<forall>w \<in> set (warehouses s). \<forall>j < length (warehouseTrucks w (trucks s)).
             length (filter (\<lambda>r. r_warehouseId r = w_id w
                               \<and> truckId r = t_id (warehouseTrucks w (trucks s) ! j)) rs)
             = (if picks (length (warehouseTrucks w (trucks s))) j (sortedStores fp w (stores s)) \<noteq> []
                then 1 else 0)"
  proof (intro ballI allI impI)
    fix w j assume w: "w \<in> set (warehouses s)" and j: "j < length (warehouseTrucks w (trucks s))"
    have "length (filter (\<lambda>r. r_warehouseId r = w_id w
                               \<and> truckId r = t_id (warehouseTrucks w (trucks s) ! j)) rs)
          = (if assignedTo fp w (stores s) (trucks s) (t_id (warehouseTrucks w (trucks s) ! j)) \<noteq> []
             then 1 else 0)"
      using rs(4) w by blast
    then show "length (filter (\<lambda>r. r_warehouseId r = w_id w
                               \<and> truckId r = t_id (warehouseTrucks w (trucks s) ! j)) rs)
             = (if picks (length (warehouseTrucks w (trucks s))) j (sortedStores fp w (stores s)) \<noteq> []
                then 1 else 0)"
      unfolding pk[OF j] by simp
  qed
  have e: "\<exists>w \<in> set (warehouses s). \<exists>j < length (warehouseTrucks w (trucks s)).
             r_warehouseId r = w_id w
             \<and> truckId r = t_id (warehouseTrucks w (trucks s) ! j)
             \<and> r_stores r \<noteq> []
             \<and> picks (length (warehouseTrucks w (trucks s))) j (sortedStores fp w (stores s)) \<noteq> []"
    if r: "r \<in> set rs" for r
  proof -
    from rs(5) r obtain w where w: "w \<in> set (warehouses s)" "r_warehouseId r = w_id w"
      "r_stores r \<noteq> []" "r_stores r = assignedTo fp w (stores s) (trucks s) (truckId r)"
      by blast
    have "truckId r \<in> t_id ` set (warehouseTrucks w (trucks s))"
      by (rule assignedTo_key[of fp w "stores s" "trucks s"]) (use w(3,4) in simp)
    then obtain j where j: "j < length (warehouseTrucks w (trucks s))"
      "truckId r = t_id (warehouseTrucks w (trucks s) ! j)"
      by (auto simp: in_set_conv_nth)
    have "r_stores r = map (\<lambda>p. s_id (fst p))
                  (picks (length (warehouseTrucks w (trucks s))) j (sortedStores fp w (stores s)))"
      using w(4) pk[OF j(1)] unfolding j(2) by simp
    then have "picks (length (warehouseTrucks w (trucks s))) j (sortedStores fp w (stores s)) \<noteq> []"
      using w(3) by auto
    then show ?thesis using w(1,2,3) j by blast
  qed
  have f: "t_id t \<notin> truckId ` set rs"
    if t: "t \<in> set (trucks s)" "warehouseId t \<notin> w_id ` set (warehouses s)" for t
  proof
    assume "t_id t \<in> truckId ` set rs"
    then obtain r where r: "r \<in> set rs" "truckId r = t_id t" by auto
    from e[OF r(1)] obtain w j where wj: "w \<in> set (warehouses s)"
      "j < length (warehouseTrucks w (trucks s))"
      "truckId r = t_id (warehouseTrucks w (trucks s) ! j)" by blast
    define t' where "t' = warehouseTrucks w (trucks s) ! j"
    have m: "t' \<in> set (warehouseTrucks w (trucks s))" using wj(2) by (simp add: t'_def)
    then have t': "t' \<in> set (trucks s)" "warehouseId t' = w_id w"
      by (simp_all add: warehouseTrucks_def)
    have "t_id t' = t_id t" using wj(3) r(2) by (simp add: t'_def)
    then have "t' = t" using assms(2) t(1) t'(1) by (metis distinct_map inj_onD)
    then show False using t(2) t'(2) wj(1) by auto
  qed
  show ?thesis
    using a rs(2,3) d e f by (intro exI[of _ rs] conjI allI ballI impI) blast+
qed

section \<open>The distance and the duration of a route\<close>









section \<open>A vehicle that does not move\<close>





section \<open>The order of the destinations\<close>

lemma comparable_finite:
  assumes "comparable fp ds" "p \<in> set ds"
  shows "snd p = Fin (fin_value (snd p))"
proof -
  have "is_finite (snd p)" using assms unfolding comparable_def by blast
  then show ?thesis by (cases "snd p") simp_all
qed

text \<open>
  While a depot with a non-empty roster is processed and the comparison of the sort is
  consistent on the distances, the destinations are sorted in ascending order of their
  distance from the depot, destinations at equal distance keeping their original order,
  and the destination at position \<open>i\<close> of the sorted list is pushed onto the array of the
  vehicle at position \<open>i mod M\<close> of the roster; the roster is the vehicle collection
  filtered by the depot's identifier, in the collection's order.
\<close>

lemma sorted_round_robin:
  assumes "warehouseTrucks w ts \<noteq> []"
    and "distinct (map t_id (warehouseTrucks w ts))"
    and "''__proto__'' \<notin> t_id ` set (warehouseTrucks w ts)"
    and "comparable fp (storesWithDistance fp w ss)"
  shows "sorted (map (\<lambda>p. fin_value (snd p)) (sortedStores fp w ss))
       \<and> (\<forall>p \<in> set (sortedStores fp w ss). snd p = Fin (fin_value (snd p)))
       \<and> mset (sortedStores fp w ss) = mset (storesWithDistance fp w ss)
       \<and> (\<forall>d. filter (\<lambda>p. fin_value (snd p) = d) (sortedStores fp w ss)
               = filter (\<lambda>p. fin_value (snd p) = d) (storesWithDistance fp w ss))
       \<and> (\<forall>j < length (warehouseTrucks w ts).
             assignedTo fp w ss ts (t_id (warehouseTrucks w ts ! j))
             = map (\<lambda>p. s_id (fst p)) (picks (length (warehouseTrucks w ts)) j (sortedStores fp w ss)))
       \<and> (\<forall>i < length ss.
             s_id (fst (sortedStores fp w ss ! i))
             \<in> set (assignedTo fp w ss ts
                      (t_id (warehouseTrucks w ts ! (i mod length (warehouseTrucks w ts))))))
       \<and> warehouseTrucks w ts = filter (\<lambda>t. warehouseId t = w_id w) ts"
proof -
  have eq: "sortedStores fp w ss = sort_key (\<lambda>p. fin_value (snd p)) (storesWithDistance fp w ss)"
    by (rule sortedStores_sort_key[OF assms(4)])
  have 1: "sorted (map (\<lambda>p. fin_value (snd p)) (sortedStores fp w ss))"
    unfolding eq by (rule sorted_sort_key)
  have 2: "\<forall>p \<in> set (sortedStores fp w ss). snd p = Fin (fin_value (snd p))"
    unfolding eq using comparable_finite[OF assms(4)] by simp
  have 3: "mset (sortedStores fp w ss) = mset (storesWithDistance fp w ss)"
    unfolding eq by (rule mset_sort)
  have 4: "\<forall>d. filter (\<lambda>p. fin_value (snd p) = d) (sortedStores fp w ss)
               = filter (\<lambda>p. fin_value (snd p) = d) (storesWithDistance fp w ss)"
    unfolding eq by (simp add: sort_key_stable)
  have 5: "\<forall>j < length (warehouseTrucks w ts).
             assignedTo fp w ss ts (t_id (warehouseTrucks w ts ! j))
             = map (\<lambda>p. s_id (fst p)) (picks (length (warehouseTrucks w ts)) j (sortedStores fp w ss))"
    using assignedTo_distinct[OF assms(1,2,3)] by blast
  have len: "length (sortedStores fp w ss) = length ss"
    by (simp add: sortedStores_def length_array_sort storesWithDistance_def)
  have 6: "\<forall>i < length ss.
             s_id (fst (sortedStores fp w ss ! i))
             \<in> set (assignedTo fp w ss ts
                      (t_id (warehouseTrucks w ts ! (i mod length (warehouseTrucks w ts)))))"
  proof (intro allI impI)
    fix i assume i: "i < length ss"
    have j: "i mod length (warehouseTrucks w ts) < length (warehouseTrucks w ts)"
      using assms(1) by simp
    have "sortedStores fp w ss ! i
          \<in> set (picks (length (warehouseTrucks w ts)) (i mod length (warehouseTrucks w ts))
                   (sortedStores fp w ss))"
      by (rule nth_in_picks) (simp add: len i)
    then show "s_id (fst (sortedStores fp w ss ! i))
             \<in> set (assignedTo fp w ss ts
                      (t_id (warehouseTrucks w ts ! (i mod length (warehouseTrucks w ts)))))"
      unfolding assignedTo_distinct[OF assms(1,2,3) j] by (simp add: image_iff) blast
  qed
  have 7: "warehouseTrucks w ts = filter (\<lambda>t. warehouseId t = w_id w) ts"
    by (simp add: warehouseTrucks_def)
  show ?thesis using 1 2 3 4 5 6 7 by blast
qed


section \<open>The properties on the example states\<close>

subsection \<open>Distances along the equator, without rounding\<close>

lemma ideal_fields [simp]:
  "nearest ideal x = Fin x"
  "sin_of ideal x = Fin (sin x)"
  "cos_of ideal x = Fin (cos x)"
  "sqrt_of ideal x = Fin (sqrt x)"
  "atan2_of ideal y x =
     Fin (if 0 < x then arctan (y / x)
          else if x < 0 then (if 0 \<le> y then arctan (y / x) + pi else arctan (y / x) - pi)
          else if 0 < y then pi / 2 else if y < 0 then - (pi / 2) else 0)"
  by (simp_all add: ideal_def)


lemma atan2_abs_sin_cos:
  assumes "\<bar>\<theta>\<bar> \<le> pi / 2"
  shows "Math_atan2 ideal (Fin \<bar>sin \<theta>\<bar>) (Fin \<bar>cos \<theta>\<bar>) = Fin \<bar>\<theta>\<bar>"
proof -
  have c0: "0 \<le> cos \<theta>" using assms by (intro cos_ge_zero) (auto simp: abs_le_iff)
  have s0: "0 \<le> sin \<bar>\<theta>\<bar>" using assms pi_ge_two by (intro sin_ge_zero) auto
  have s: "\<bar>sin \<theta>\<bar> = sin \<bar>\<theta>\<bar>"
  proof (cases "0 \<le> \<theta>")
    case True
    with s0 show ?thesis by simp
  next
    case False
    then have "sin \<bar>\<theta>\<bar> = - sin \<theta>" by simp
    with s0 show ?thesis by simp
  qed
  have c: "\<bar>cos \<theta>\<bar> = cos \<bar>\<theta>\<bar>" using c0 by (simp add: abs_if)
  show ?thesis
  proof (cases "\<bar>\<theta>\<bar> = pi / 2")
    case True
    have "sin \<bar>\<theta>\<bar> = 1" "cos \<bar>\<theta>\<bar> = 0" unfolding True by simp_all
    then have "Math_atan2 ideal (Fin (sin \<bar>\<theta>\<bar>)) (Fin (cos \<bar>\<theta>\<bar>)) = Fin (pi / 2)" by simp
    then show ?thesis unfolding s c True .
  next
    case False
    with assms have lt: "\<bar>\<theta>\<bar> < pi / 2" by simp
    then have pos: "0 < cos \<bar>\<theta>\<bar>" by (intro cos_gt_zero_pi) auto
    have "arctan (sin \<bar>\<theta>\<bar> / cos \<bar>\<theta>\<bar>) = \<bar>\<theta>\<bar>"
      using arctan_tan[of "\<bar>\<theta>\<bar>"] lt by (simp add: tan_def)
    with pos show ?thesis unfolding s c by simp
  qed
qed

lemma calculateDistance_equator:
  assumes "\<bar>y - x\<bar> \<le> 180"
  shows "calculateDistance ideal (Fin 0) (Fin x) (Fin 0) (Fin y) = Fin (6371 * (\<bar>y - x\<bar> * pi / 180))"
proof -
  define \<theta> where "\<theta> = (y - x) * pi / 360"
  have b: "\<bar>\<theta>\<bar> \<le> pi / 2"
  proof -
    have "\<bar>\<theta>\<bar> = \<bar>y - x\<bar> * pi / 360" by (simp add: \<theta>_def abs_mult)
    also have "\<dots> \<le> 180 * pi / 360" using assms by (intro divide_right_mono mult_right_mono) auto
    finally show ?thesis by simp
  qed
  have dLon: "jdiv ideal (jdiv ideal (jmul ideal (jsub ideal (Fin y) (Fin x)) (Math_PI ideal)) (Fin 180)) (Fin 2) = Fin \<theta>"
    by (simp add: Math_PI_def \<theta>_def)
  have dLat: "jdiv ideal (jdiv ideal (jmul ideal (jsub ideal (Fin 0) (Fin 0)) (Math_PI ideal)) (Fin 180)) (Fin 2) = Fin 0"
    by (simp add: Math_PI_def)
  have l0: "jdiv ideal (jmul ideal (Fin 0) (Math_PI ideal)) (Fin 180) = Fin 0"
    by (simp add: Math_PI_def)
  have one: "1 - sin \<theta> * sin \<theta> = cos \<theta> * cos \<theta>"
    using sin_cos_squared_add[of \<theta>] by (simp add: power2_eq_square algebra_simps)
  have a: "jadd ideal (jmul ideal (Math_sin ideal (Fin 0)) (Math_sin ideal (Fin 0)))
             (jmul ideal (jmul ideal (jmul ideal (Math_cos ideal (Fin 0)) (Math_cos ideal (Fin 0))) (Math_sin ideal (Fin \<theta>)))
                (Math_sin ideal (Fin \<theta>))) = Fin (sin \<theta> * sin \<theta>)"
    by simp
  have sq1: "Math_sqrt ideal (Fin (sin \<theta> * sin \<theta>)) = Fin \<bar>sin \<theta>\<bar>"
    by simp
  have sq2: "Math_sqrt ideal (jsub ideal (Fin 1) (Fin (sin \<theta> * sin \<theta>))) = Fin \<bar>cos \<theta>\<bar>"
    unfolding jsub.simps one by simp
  have "calculateDistance ideal (Fin 0) (Fin x) (Fin 0) (Fin y)
        = jmul ideal (Fin 6371) (jmul ideal (Fin 2) (Math_atan2 ideal (Fin \<bar>sin \<theta>\<bar>) (Fin \<bar>cos \<theta>\<bar>)))"
    unfolding calculateDistance_def Let_def dLon dLat l0 a sq1 sq2 ..
  also have "\<dots> = Fin (6371 * (2 * \<bar>\<theta>\<bar>))" unfolding atan2_abs_sin_cos[OF b] by simp
  also have "2 * \<bar>\<theta>\<bar> = \<bar>y - x\<bar> * pi / 180" by (simp add: \<theta>_def abs_mult)
  finally show ?thesis .
qed


lemma dist_depot_dest:
  "\<bar>y - x\<bar> \<le> 180 \<Longrightarrow>
   calculateDistance ideal (lat (w_location (depot i x))) (lng (w_location (depot i x)))
     (lat (s_location (dest k y))) (lng (s_location (dest k y)))
   = Fin (6371 * (\<bar>y - x\<bar> * pi / 180))"
  by (simp add: depot_def dest_def loc_def calculateDistance_equator)

lemma stores_scenario: "stores scenario = [dest ''d3'' 3, dest ''d1'' 1, dest ''d2'' 2]"
  by (simp add: scenario_def)

lemma trucks_scenario:
  "trucks scenario = [vehicle ''v1'' ''w1'' 60, vehicle ''v2'' ''w1'' 60, vehicle ''v3'' ''w2'' 50]"
  by (simp add: scenario_def)

lemma warehouses_scenario: "warehouses scenario = [depot ''w1'' 0, depot ''w2'' 10]"
  by (simp add: scenario_def)

lemma roster_w1:
  "warehouseTrucks (depot ''w1'' 0) (trucks scenario) = [vehicle ''v1'' ''w1'' 60, vehicle ''v2'' ''w1'' 60]"
  by (simp add: warehouseTrucks_def scenario_def depot_def vehicle_def)


lemma swd_w1:
  "storesWithDistance ideal (depot ''w1'' 0) (stores scenario)
   = [(dest ''d3'' 3, Fin (6371 * (3 * pi / 180))), (dest ''d1'' 1, Fin (6371 * (1 * pi / 180))),
      (dest ''d2'' 2, Fin (6371 * (2 * pi / 180)))]"
  unfolding storesWithDistance_def stores_scenario by (simp add: dist_depot_dest)

lemma sorted_w1:
  "sortedStores ideal (depot ''w1'' 0) (stores scenario)
   = [(dest ''d1'' 1, Fin (6371 * (1 * pi / 180))), (dest ''d2'' 2, Fin (6371 * (2 * pi / 180))),
      (dest ''d3'' 3, Fin (6371 * (3 * pi / 180)))]"
  unfolding sortedStores_def swd_w1 by (simp add: array_sort_def by_distance_def)

subsection \<open>Witnesses\<close>

text \<open>
  Depot \<open>w1\<close> of \<open>scenario\<close>: three destinations over two vehicles, two and one.
\<close>

theorem round_robin_balanced_witness:
  "warehouseTrucks (depot ''w1'' 0) (trucks scenario) \<noteq> []
   \<and> distinct (map t_id (warehouseTrucks (depot ''w1'' 0) (trucks scenario)))
   \<and> ''__proto__'' \<notin> t_id ` set (warehouseTrucks (depot ''w1'' 0) (trucks scenario))
   \<and> length (assignedTo ideal (depot ''w1'' 0) (stores scenario) (trucks scenario) ''v1'')
       + length (assignedTo ideal (depot ''w1'' 0) (stores scenario) (trucks scenario) ''v2'') = 3
   \<and> length (assignedTo ideal (depot ''w1'' 0) (stores scenario) (trucks scenario) ''v1'')
       \<le> length (assignedTo ideal (depot ''w1'' 0) (stores scenario) (trucks scenario) ''v2'') + 1
   \<and> length (assignedTo ideal (depot ''w1'' 0) (stores scenario) (trucks scenario) ''v2'')
       \<le> length (assignedTo ideal (depot ''w1'' 0) (stores scenario) (trucks scenario) ''v1'') + 1"
proof -
  have h1: "warehouseTrucks (depot ''w1'' 0) (trucks scenario) \<noteq> []"
    by (simp add: roster_w1)
  have h2: "distinct (map t_id (warehouseTrucks (depot ''w1'' 0) (trucks scenario)))"
    by (simp add: roster_w1 vehicle_def)
  have h3: "''__proto__'' \<notin> t_id ` set (warehouseTrucks (depot ''w1'' 0) (trucks scenario))"
    by (simp add: roster_w1 vehicle_def)
  have n: "length (stores scenario) = 3"
    by (simp add: scenario_def)
  have ids: "t_id (vehicle ''v1'' ''w1'' 60) = ''v1''" "t_id (vehicle ''v2'' ''w1'' 60) = ''v2''"
    by (simp_all add: vehicle_def)
  show ?thesis
    using h1 h2 h3 round_robin_balanced[OF h1 h2 h3, of ideal "stores scenario"]
    unfolding roster_w1 n by (simp add: ids)
qed

subsection \<open>The cycle on the example states\<close>

lemmas run_defs = generateRoutes_def storeUpdates_def cycle_def set_state_def processWarehouse_def createRoute_def buildRoute_def totalDistance_def
  visit_def Object_entries_def array_index_def digit_def truckAssignments_def sortedStores_def
  storesWithDistance_def by_distance_def array_sort_def warehouseTrucks_def initAssignments_def
  obj_assign_def empty_object_def assignStore_def at_index_def obj_push_def

lemmas example_defs = depot_def dest_def loc_def vehicle_def calculateDistance_equator
  enumerate_eq_zip upt_rec

lemma cycle_scenario:
  "generateRoutes ideal random_id now (scenario\<lparr>routes := old\<rparr>)
   = Inr (scenario\<lparr>routes := scenario_routes random_id now\<rparr>)"
  unfolding scenario_def scenario_routes_def
  by (simp add: run_defs example_defs numeral_2_eq_2 del: toFixed2.simps)



lemma cycle_result_unique:
  assumes "generateRoutes ideal random_id now s = Inr (s\<lparr>routes := a\<rparr>)"
    and "generateRoutes ideal random_id now s = Inr (s\<lparr>routes := b\<rparr>)"
  shows "a = b"
  using assms routes_update_inject by (metis sum.inject(2))


text \<open>
  Two cycles on \<open>scenario\<close> with different identifier and clock supplies.
\<close>

theorem regeneration_same_content_witness:
  "\<exists>rs1 rs2. generateRoutes ideal example_ids example_clock scenario = Inr (scenario\<lparr>routes := rs1\<rparr>)
     \<and> generateRoutes ideal other_ids other_clock (scenario\<lparr>routes := rs1\<rparr>) = Inr (scenario\<lparr>routes := rs2\<rparr>)
     \<and> length rs2 = length rs1
     \<and> map content rs2 = map content rs1
     \<and> map r_id rs1 = [''r'', ''rx'', ''rxx''] \<and> map r_id rs2 = [''q'', ''qy'', ''qyy'']
     \<and> map truckId rs1 = [''v1'', ''v2'', ''v3'']"
proof -
  obtain rs1 rs2 where rs:
    "generateRoutes ideal example_ids example_clock scenario = Inr (scenario\<lparr>routes := rs1\<rparr>)"
    "generateRoutes ideal other_ids other_clock (scenario\<lparr>routes := rs1\<rparr>) = Inr (scenario\<lparr>routes := rs2\<rparr>)"
    "length rs2 = length rs1" "map content rs2 = map content rs1"
    using regeneration_same_content[of ideal example_ids example_clock scenario other_ids other_clock]
    by blast
  have "generateRoutes ideal example_ids example_clock scenario
        = Inr (scenario\<lparr>routes := scenario_routes example_ids example_clock\<rparr>)"
    using cycle_scenario[of example_ids example_clock "routes scenario"] by simp
  then have "rs1 = scenario_routes example_ids example_clock"
    using rs(1) cycle_result_unique by blast
  then have 1: "map r_id rs1 = [''r'', ''rx'', ''rxx'']" "map truckId rs1 = [''v1'', ''v2'', ''v3'']"
    by (simp_all add: scenario_routes_def example_ids_def numeral_2_eq_2)
  have "rs2 = scenario_routes other_ids other_clock"
    using rs(2) unfolding cycle_scenario by (rule routes_update_inject[OF sum.inject(2)[THEN iffD1], symmetric])
  then have 2: "map r_id rs2 = [''q'', ''qy'', ''qyy'']"
    by (simp add: scenario_routes_def other_ids_def numeral_2_eq_2)
  show ?thesis by (intro exI[of _ rs1] exI[of _ rs2] conjI rs 1 2)
qed

text \<open>
  Deleting depot w2 of \<open>scenario\<close> leaves its vehicle v3, which then gets no route.
\<close>

theorem deleteWarehouse_frame_witness:
  "distinct (map t_id (trucks scenario))
   \<and> vehicle ''v3'' ''w2'' 50 \<in> set (trucks scenario)
   \<and> warehouseId (vehicle ''v3'' ''w2'' 50) = ''w2''
   \<and> trucks (deleteWarehouse ''w2'' scenario) = trucks scenario
   \<and> routes (deleteWarehouse ''w2'' scenario) = routes scenario
   \<and> warehouses (deleteWarehouse ''w2'' scenario) = [depot ''w1'' 0]
   \<and> (\<exists>rs. generateRoutes ideal example_ids example_clock (deleteWarehouse ''w2'' scenario)
              = Inr ((deleteWarehouse ''w2'' scenario)\<lparr>routes := rs\<rparr>)
         \<and> ''w2'' \<notin> r_warehouseId ` set rs
         \<and> ''v3'' \<notin> truckId ` set rs)"
proof -
  have d: "distinct (map t_id (trucks scenario))"
    by (simp add: trucks_scenario vehicle_def)
  have t: "vehicle ''v3'' ''w2'' 50 \<in> set (trucks scenario)"
    "warehouseId (vehicle ''v3'' ''w2'' 50) = ''w2''" "t_id (vehicle ''v3'' ''w2'' 50) = ''v3''"
    by (simp_all add: trucks_scenario vehicle_def)
  note f = deleteWarehouse_frame[of "''w2''" scenario ideal example_ids example_clock]
  have 1: "trucks (deleteWarehouse ''w2'' scenario) = trucks scenario"
    "routes (deleteWarehouse ''w2'' scenario) = routes scenario"
    using f by blast+
  have "warehouses (deleteWarehouse ''w2'' scenario) = filter (\<lambda>w. w_id w \<noteq> ''w2'') (warehouses scenario)"
    using f by blast
  then have 2: "warehouses (deleteWarehouse ''w2'' scenario) = [depot ''w1'' 0]"
    by (simp add: warehouses_scenario depot_def)
  obtain rs where rs: "generateRoutes ideal example_ids example_clock (deleteWarehouse ''w2'' scenario)
              = Inr ((deleteWarehouse ''w2'' scenario)\<lparr>routes := rs\<rparr>)"
    "''w2'' \<notin> r_warehouseId ` set rs"
    "distinct (map t_id (trucks scenario)) \<longrightarrow>
       (\<forall>t \<in> set (trucks scenario). warehouseId t = ''w2'' \<longrightarrow> t_id t \<notin> truckId ` set rs)"
    using f by blast
  have "''v3'' \<notin> truckId ` set rs"
    using rs(3) d t by metis
  then show ?thesis using d t(1,2) 1 2 rs(1,2) by blast
qed



lemma routes_scenario: "routes scenario = [old_route ''r1'', old_route ''r2'']"
  by (simp add: scenario_def)

lemma ids_scenario: "map r_id (routes scenario) = [''r1'', ''r2'']"
  by (simp add: routes_scenario old_route_def)

text \<open>
  Updating or deleting the absent identifier zz returns what updating or deleting the
  present identifier r1 returns.
\<close>

theorem no_indication_counterexample:
  "''r1'' \<in> r_id ` set (routes scenario)
   \<and> ''zz'' \<notin> r_id ` set (routes scenario)
   \<and> fst (updateRoute ''zz'' (with_distance (Fin 7)) scenario)
       = fst (updateRoute ''r1'' (with_distance (Fin 7)) scenario)
   \<and> snd (updateRoute ''zz'' (with_distance (Fin 7)) scenario) = scenario
   \<and> map distance (routes (snd (updateRoute ''r1'' (with_distance (Fin 7)) scenario))) = [Fin 7, Fin 5]
   \<and> fst (deleteRoute ''zz'' scenario) = fst (deleteRoute ''r1'' scenario)
   \<and> snd (deleteRoute ''zz'' scenario) = scenario
   \<and> map r_id (routes (snd (deleteRoute ''r1'' scenario))) = [''r2'']"
  by (simp add: updateRoute_def deleteRoute_def routes_scenario old_route_def spread_def
      with_distance_def no_fields_def)

text \<open>
  The two actions on \<open>scenario\<close>, with an absent and with a present identifier.
\<close>

theorem update_delete_silent_witness:
  "''zz'' \<notin> r_id ` set (routes scenario)
   \<and> updateRoute ''zz'' (with_distance (Fin 7)) scenario = ((), scenario)
   \<and> deleteRoute ''zz'' scenario = ((), scenario)
   \<and> ''r1'' \<notin> r_id ` set (routes (snd (deleteRoute ''r1'' scenario)))"
proof -
  have h: "''zz'' \<notin> r_id ` set (routes scenario)"
    by (simp add: routes_scenario old_route_def)
  show ?thesis
    using h update_delete_silent[of "''zz''" "with_distance (Fin 7)" scenario]
      update_delete_silent[of "''r1''" "with_distance (Fin 7)" scenario]
    by blast
qed

text \<open>
  Identifiers that were distinct are no longer so after an update that carries an \<open>id\<close>
  field, after an \<open>addRoute\<close> whose random identifier is already taken, and after a cycle
  whose random identifiers coincide.
\<close>

theorem duplicate_id_counterexample:
  "distinct (map r_id (routes scenario))
   \<and> map r_id (routes (snd (updateRoute ''r1'' (with_id ''r2'') scenario))) = [''r2'', ''r2'']
   \<and> \<not> distinct (map r_id (routes (snd (updateRoute ''r1'' (with_id ''r2'') scenario))))
   \<and> map r_id (routes (addRoute ''r2'' (old_route ''new'') scenario)) = [''r1'', ''r2'', ''r2'']
   \<and> generateRoutes ideal stuck_ids example_clock scenario
       = Inr (scenario\<lparr>routes := scenario_routes stuck_ids example_clock\<rparr>)
   \<and> map r_id (scenario_routes stuck_ids example_clock) = [''k'', ''k'', ''k'']"
proof -
  have "generateRoutes ideal stuck_ids example_clock scenario
       = Inr (scenario\<lparr>routes := scenario_routes stuck_ids example_clock\<rparr>)"
    using cycle_scenario[of stuck_ids example_clock "routes scenario"] by simp
  then show ?thesis
    by (simp add: updateRoute_def addRoute_def routes_scenario old_route_def spread_def
        with_id_def no_fields_def scenario_routes_def stuck_ids_def)
qed

lemma inj_example_ids: "inj example_ids"
proof (rule injI)
  fix m n assume "example_ids m = example_ids n"
  then have "length (example_ids m) = length (example_ids n)" by simp
  then show "m = n" by (simp add: example_ids_def)
qed

text \<open>
  The actions on \<open>scenario\<close>, with an identifier supply that is injective and fresh.
\<close>

theorem distinct_ids_preserved_witness:
  "distinct (map r_id (routes scenario))
   \<and> map r_id (routes (snd (deleteRoute ''r1'' scenario))) = [''r2'']
   \<and> distinct (map r_id (routes (snd (deleteRoute ''r1'' scenario))))
   \<and> p_id (with_id ''r9'') = Some ''r9'' \<and> ''r9'' \<notin> r_id ` set (routes scenario)
   \<and> distinct (map r_id (routes (snd (updateRoute ''r1'' (with_id ''r9'') scenario))))
   \<and> ''r3'' \<notin> r_id ` set (routes scenario)
   \<and> distinct (map r_id (routes (addRoute ''r3'' (old_route ''new'') scenario)))
   \<and> inj_on example_ids {0..<length (workList ideal scenario)}
   \<and> (\<exists>rs. generateRoutes ideal example_ids example_clock scenario = Inr (scenario\<lparr>routes := rs\<rparr>)
         \<and> distinct (map r_id rs))"
proof -
  have d: "distinct (map r_id (routes scenario))" by (simp add: ids_scenario)
  have p: "p_id (with_id ''r9'') = Some ''r9''" by (simp add: with_id_def no_fields_def)
  have f: "''r9'' \<notin> r_id ` set (routes scenario)" "''r3'' \<notin> r_id ` set (routes scenario)"
    by (simp_all add: routes_scenario old_route_def)
  have c: "case p_id (with_id ''r9'') of None \<Rightarrow> True
           | Some v \<Rightarrow> v = ''r1'' \<or> v \<notin> r_id ` set (routes scenario)"
    using f(1) by (simp add: p)
  have i: "inj_on example_ids {0..<length (workList ideal scenario)}"
    using inj_example_ids by (rule inj_on_subset) simp
  have e: "map r_id (routes (snd (deleteRoute ''r1'' scenario))) = [''r2'']"
    by (simp add: deleteRoute_def routes_scenario old_route_def)
  note t = distinct_ids_preserved[OF d, of "''r1''" "with_id ''r9''" "''r3''" "old_route ''new''"
      example_ids ideal example_clock]
  show ?thesis using d p f c i e t by blast
qed

lemma scenario_cycle_result:
  assumes "generateRoutes ideal random_id now scenario = Inr (scenario\<lparr>routes := rs\<rparr>)"
  shows "rs = scenario_routes random_id now"
proof -
  have "generateRoutes ideal random_id now scenario
        = Inr (scenario\<lparr>routes := scenario_routes random_id now\<rparr>)"
    using cycle_scenario[of random_id now "routes scenario"] by simp
  then show ?thesis using assms cycle_result_unique by blast
qed

lemma scenario_ids:
  "distinct (map w_id (warehouses scenario))" "distinct (map t_id (trucks scenario))"
  "''__proto__'' \<notin> t_id ` set (trucks scenario)" "distinct (map s_id (stores scenario))"
  by (simp_all add: warehouses_scenario trucks_scenario stores_scenario depot_def vehicle_def dest_def)

lemma updates_scenario:
  "storeUpdates ideal example_ids example_clock scenario
   = Inr (map (\<lambda>k. scenario\<lparr>routes := take k (scenario_routes example_ids example_clock)\<rparr>) [0..<4])"
proof -
  have "generateRoutes ideal example_ids example_clock scenario
        = Inr (scenario\<lparr>routes := scenario_routes example_ids example_clock\<rparr>)"
    using cycle_scenario[of example_ids example_clock "routes scenario"] by simp
  then have "storeUpdates ideal example_ids example_clock scenario
        = Inr (scenario\<lparr>routes := []\<rparr>
               # growth (scenario\<lparr>routes := []\<rparr>) (scenario_routes example_ids example_clock))"
    by (rule storeUpdates_growth)
  also have "length (scenario_routes example_ids example_clock) = 3"
    by (simp add: scenario_routes_def)
  then have "scenario\<lparr>routes := []\<rparr>
               # growth (scenario\<lparr>routes := []\<rparr>) (scenario_routes example_ids example_clock)
        = map (\<lambda>k. scenario\<lparr>routes := take k (scenario_routes example_ids example_clock)\<rparr>) [0..<4]"
    unfolding growth_prefixes by simp
  finally show ?thesis .
qed

text \<open>
  The cycle on \<open>scenario\<close> stores four states one after the other: the collection is
  empty first, and holds one and then two of the three new routes before it is complete.
\<close>

theorem stepwise_replacement_counterexample:
  "map r_id (routes scenario) = [''r1'', ''r2'']
   \<and> map_sum id (map (\<lambda>st. map r_id (routes st)))
        (storeUpdates ideal example_ids example_clock scenario)
      = Inr [[], [''r''], [''r'', ''rx''], [''r'', ''rx'', ''rxx'']]
   \<and> map_sum id (\<lambda>st. map r_id (routes st))
        (generateRoutes ideal example_ids example_clock scenario)
      = Inr [''r'', ''rx'', ''rxx'']"
proof -
  have 1: "map_sum id (map (\<lambda>st. map r_id (routes st)))
        (storeUpdates ideal example_ids example_clock scenario)
      = Inr [[], [''r''], [''r'', ''rx''], [''r'', ''rx'', ''rxx'']]"
    unfolding updates_scenario
    by (simp add: scenario_routes_def example_ids_def upt_rec numeral_2_eq_2 numeral_3_eq_3)
  have 2: "map_sum id (\<lambda>st. map r_id (routes st))
        (generateRoutes ideal example_ids example_clock scenario)
      = Inr [''r'', ''rx'', ''rxx'']"
    using cycle_scenario[of example_ids example_clock "routes scenario"]
    by (simp add: scenario_routes_def example_ids_def numeral_2_eq_2)
  show ?thesis by (intro conjI ids_scenario 1 2)
qed

lemma received_w1:
  "map (\<lambda>p. s_id (fst p)) (picks 2 0 (sortedStores ideal (depot ''w1'' 0) (stores scenario)))
   = [''d1'', ''d3'']"
  "map (\<lambda>p. s_id (fst p)) (picks 2 1 (sortedStores ideal (depot ''w1'' 0) (stores scenario)))
   = [''d2'']"
  unfolding sorted_w1 by (simp_all add: picks_def dest_def upt_rec)

text \<open>
  The cycle on \<open>scenario\<close>: the two earlier routes are gone, the states stored are the
  prefixes of the new collection, and there is one route for each of (w1, v1), (w1, v2),
  (w2, v3).
\<close>

theorem cycle_replaces_routes_witness:
  "distinct (map w_id (warehouses scenario))
   \<and> distinct (map t_id (trucks scenario))
   \<and> ''__proto__'' \<notin> t_id ` set (trucks scenario)
   \<and> map r_id (routes scenario) = [''r1'', ''r2'']
   \<and> warehouseTrucks (depot ''w1'' 0) (trucks scenario)
       = [vehicle ''v1'' ''w1'' 60, vehicle ''v2'' ''w1'' 60]
   \<and> map (\<lambda>p. s_id (fst p)) (picks 2 0 (sortedStores ideal (depot ''w1'' 0) (stores scenario)))
       = [''d1'', ''d3'']
   \<and> (\<exists>rs. generateRoutes ideal example_ids example_clock scenario = Inr (scenario\<lparr>routes := rs\<rparr>)
         \<and> storeUpdates ideal example_ids example_clock scenario
             = Inr (map (\<lambda>k. scenario\<lparr>routes := take k rs\<rparr>) [0..<Suc (length rs)])
         \<and> map r_id rs = [''r'', ''rx'', ''rxx'']
         \<and> map (\<lambda>r. (r_warehouseId r, truckId r)) rs
             = [(''w1'', ''v1''), (''w1'', ''v2''), (''w2'', ''v3'')]
         \<and> length (filter (\<lambda>r. r_warehouseId r = ''w1'' \<and> truckId r = ''v1'') rs) = 1)"
proof -
  define w where "w = depot ''w1'' 0"
  have w: "w \<in> set (warehouses scenario)" "w_id w = ''w1''"
    by (simp_all add: warehouses_scenario depot_def w_def)
  have wts: "warehouseTrucks w (trucks scenario) = [vehicle ''v1'' ''w1'' 60, vehicle ''v2'' ''w1'' 60]"
    unfolding w_def by (rule roster_w1)
  have rcv: "map (\<lambda>p. s_id (fst p)) (picks 2 0 (sortedStores ideal w (stores scenario))) = [''d1'', ''d3'']"
    unfolding w_def by (rule received_w1)
  obtain rs where rs:
    "\<forall>old. generateRoutes ideal example_ids example_clock (scenario\<lparr>routes := old\<rparr>)
             = Inr (scenario\<lparr>routes := rs\<rparr>)
           \<and> storeUpdates ideal example_ids example_clock (scenario\<lparr>routes := old\<rparr>)
               = Inr (map (\<lambda>k. scenario\<lparr>routes := take k rs\<rparr>) [0..<Suc (length rs)])"
    "map r_id rs = map example_ids [0..<length rs]"
    "\<forall>w \<in> set (warehouses scenario). \<forall>j < length (warehouseTrucks w (trucks scenario)).
             length (filter (\<lambda>r. r_warehouseId r = w_id w
                               \<and> truckId r = t_id (warehouseTrucks w (trucks scenario) ! j)) rs)
             = (if picks (length (warehouseTrucks w (trucks scenario))) j
                     (sortedStores ideal w (stores scenario)) \<noteq> []
                then 1 else 0)"
    using cycle_replaces_routes[OF scenario_ids(1,2,3), of ideal example_ids example_clock]
    by (elim exE conjE)
  have run: "generateRoutes ideal example_ids example_clock scenario = Inr (scenario\<lparr>routes := rs\<rparr>)"
    and ups: "storeUpdates ideal example_ids example_clock scenario
             = Inr (map (\<lambda>k. scenario\<lparr>routes := take k rs\<rparr>) [0..<Suc (length rs)])"
    using rs(1)[rule_format, of "routes scenario"] by simp_all
  have eq: "rs = scenario_routes example_ids example_clock"
    using run by (rule scenario_cycle_result)
  have ids: "map r_id rs = [''r'', ''rx'', ''rxx'']"
    using rs(2) by (simp add: eq scenario_routes_def example_ids_def upt_rec numeral_2_eq_2)
  have prs: "map (\<lambda>r. (r_warehouseId r, truckId r)) rs
             = [(''w1'', ''v1''), (''w1'', ''v2''), (''w2'', ''v3'')]"
    by (simp add: eq scenario_routes_def)
  have pne: "picks 2 0 (sortedStores ideal w (stores scenario)) \<noteq> []" using rcv by auto
  have "length (filter (\<lambda>r. r_warehouseId r = w_id w
                               \<and> truckId r = t_id (warehouseTrucks w (trucks scenario) ! 0)) rs)
             = (if picks (length (warehouseTrucks w (trucks scenario))) 0
                     (sortedStores ideal w (stores scenario)) \<noteq> []
                then 1 else 0)"
    by (rule rs(3)[rule_format, OF w(1)]) (simp add: wts)
  then have "length (filter (\<lambda>r. r_warehouseId r = w_id w
                               \<and> truckId r = t_id (warehouseTrucks w (trucks scenario) ! 0)) rs) = 1"
    using pne by (simp add: wts numeral_2_eq_2)
  then have c1: "length (filter (\<lambda>r. r_warehouseId r = ''w1'' \<and> truckId r = ''v1'') rs) = 1"
    by (simp add: wts w(2) vehicle_def)
  show ?thesis
    unfolding w_def[symmetric]
    by (intro conjI exI[of _ rs] scenario_ids(1,2,3) ids_scenario wts rcv run ups ids prs c1)
qed








end
